theory Spec2Isabelle
  imports Main "HOL-Library.Sublist"
begin

section \<open>SimpleScraper: a shallow embedding of simplescraper.py\<close>

text \<open>
  Python \<open>str\<close> and \<open>bytes\<close> values are both modelled as \<open>string\<close> (a list of
  bytes, the UTF-8 encoding of the text), so \<open>rel_link.encode()\<close> is the identity.
  Every separator the program looks for (\<open>/\<close>, \<open>:\<close>, \<open>?\<close>, space, comma) is ASCII, so
  splitting and stripping act on the bytes as they act on the code points.

  What the program takes from libraries is not part of the repository and is kept
  abstract: the HTTP session, the HTML parser, \<open>urljoin\<close>, the iteration order of a
  Python \<open>set\<close>, the regular-expression compiler and the expansion of a replacement
  template that holds a backslash are fields of the record \<open>env\<close> below. So are the
  two ways a download can fail after the response has arrived: \<open>open(path, 'wb')\<close> raising
  and the body stream breaking. Writing to a file that has been opened, and \<open>os.mkdir\<close>,
  are modelled as succeeding.
\<close>

subsection \<open>Exceptions, responses and the HTTP session\<close>

datatype py_error =
    KeyError string
  | IndexError
  | AttributeError string
  | UnboundLocalError string
  | RequestException string
  | ReError string
  | OSError string

record response =
  status_code :: int
  r_url :: string
  r_content :: string

datatype outcome = Raises py_error | Responds response

text \<open>
  A session answers a GET for a URL from the list of URLs requested so far, so the
  same URL may fail at one attempt and answer at the next. \<open>s_get\<close> is
  \<open>s.get(url)\<close>: it returns the outcome and the extended request log.
\<close>

type_synonym session = "string list \<Rightarrow> string \<Rightarrow> outcome"

definition s_get :: "session \<Rightarrow> string \<Rightarrow> string list \<Rightarrow> outcome \<times> string list" where
  "s_get s u lg = (s lg u, lg @ [u])"

subsection \<open>\<open>get_retry\<close> (lines 16-33)\<close>

text \<open>
  The local variable \<open>r\<close> is unbound before the loop, the class object
  \<open>requests.Response\<close> with \<open>status_code = 0\<close> after a caught exception, or a
  response.
\<close>

datatype rvar = Unbound | ResponseClass | Resp response

fun rvar_status :: "rvar \<Rightarrow> int" where
  "rvar_status Unbound = 0"
| "rvar_status ResponseClass = 0"
| "rvar_status (Resp resp) = status_code resp"

text \<open>
  The \<open>for retry_no in range(max_retries)\<close> loop, over the values of \<open>retry_no\<close> still to
  come. \<open>raise err\<close> leaves the function with \<open>Inl err\<close>, \<open>break\<close> and the end of the range
  leave the loop with the current \<open>r\<close>.
\<close>

fun get_retry_loop ::
  "session \<Rightarrow> string \<Rightarrow> int \<Rightarrow> int list \<Rightarrow> rvar \<Rightarrow> string list \<Rightarrow> (py_error + rvar) \<times> string list"
where
  "get_retry_loop s u max_retries [] r lg = (Inr r, lg)"
| "get_retry_loop s u max_retries (retry_no # rest) r lg =
     (case s_get s u lg of
        (Raises err, lg') \<Rightarrow>
          if retry_no = max_retries - 1 then (Inl err, lg')
          else if rvar_status ResponseClass = 200 then (Inr ResponseClass, lg')
          else get_retry_loop s u max_retries rest ResponseClass lg'
      | (Responds resp, lg') \<Rightarrow>
          if rvar_status (Resp resp) = 200 then (Inr (Resp resp), lg')
          else get_retry_loop s u max_retries rest (Resp resp) lg')"

text \<open>\<open>return r\<close> raises \<open>UnboundLocalError\<close> when the loop body never ran.\<close>

definition get_retry ::
  "session \<Rightarrow> string \<Rightarrow> int \<Rightarrow> string list \<Rightarrow> (py_error + rvar) \<times> string list"
where
  "get_retry s u max_retries lg =
     (case get_retry_loop s u max_retries [0..max_retries - 1] Unbound lg of
        (Inr Unbound, lg') \<Rightarrow> (Inl (UnboundLocalError ''r''), lg')
      | res \<Rightarrow> res)"

subsection \<open>Exceptions inside expressions\<close>

text \<open>
  \<open>bind_err\<close> sequences two computations that may raise. \<open>comprehension c f xs\<close> is the
  list comprehension \<open>[f(x) for x in xs if c(x)]\<close>: it stops at the first element whose
  \<open>f(x)\<close> raises.
\<close>

fun bind_err :: "py_error + 'a \<Rightarrow> ('a \<Rightarrow> py_error + 'b) \<Rightarrow> py_error + 'b" where
  "bind_err (Inl err) f = Inl err"
| "bind_err (Inr x) f = f x"

fun comprehension :: "('a \<Rightarrow> bool) \<Rightarrow> ('a \<Rightarrow> py_error + 'b) \<Rightarrow> 'a list \<Rightarrow> py_error + 'b list" where
  "comprehension c f [] = Inr []"
| "comprehension c f (x # xs) =
     (if c x then bind_err (f x) (\<lambda>y. bind_err (comprehension c f xs) (\<lambda>ys. Inr (y # ys)))
      else comprehension c f xs)"

subsection \<open>String methods\<close>

text \<open>
  \<open>split_py s sep\<close> is \<open>s.split(sep)\<close> for a non-empty separator: the pieces between the
  non-overlapping occurrences of \<open>sep\<close>, found from the left; the result is never empty.
  \<open>first_item xs\<close> is \<open>xs[0]\<close>.
\<close>

fun split_acc :: "string \<Rightarrow> string \<Rightarrow> string \<Rightarrow> string list" where
  "split_acc sep acc [] = [rev acc]"
| "split_acc sep acc (c # cs) =
     (if sep \<noteq> [] \<and> prefix sep (c # cs)
      then rev acc # split_acc sep [] (drop (length sep - 1) cs)
      else split_acc sep (c # acc) cs)"

definition split_py :: "string \<Rightarrow> string \<Rightarrow> string list" where
  "split_py s sep = split_acc sep [] s"

definition first_item :: "'a list \<Rightarrow> py_error + 'a" where
  "first_item xs = (case xs of [] \<Rightarrow> Inl IndexError | x # _ \<Rightarrow> Inr x)"

definition startswith :: "string \<Rightarrow> string \<Rightarrow> bool" where
  "startswith s p = prefix p s"

text \<open>\<open>s.strip(c)\<close> and \<open>s.replace(a, b)\<close> for single characters.\<close>

definition strip_char :: "char \<Rightarrow> string \<Rightarrow> string" where
  "strip_char c s = rev (dropWhile (\<lambda>x. x = c) (rev (dropWhile (\<lambda>x. x = c) s)))"

definition replace_char :: "char \<Rightarrow> char \<Rightarrow> string \<Rightarrow> string" where
  "replace_char a b s = map (\<lambda>c. if c = a then b else c) s"

subsection \<open>The parsed page\<close>

text \<open>
  A BeautifulSoup tag is its name and its attribute dictionary. The parser gives the
  value of a multi-valued attribute such as \<open>rel\<close> as a list of tokens and every other
  value as a string. A \<open>soup\<close> is the list of the document's tags in document order, and
  \<open>find_all\<close> selects by tag name.
\<close>

datatype attr_value = Str string | Lst "string list"

record tag =
  tag_name :: string
  attrs :: "string \<rightharpoonup> attr_value"

definition has_attr :: "tag \<Rightarrow> string \<Rightarrow> bool" where
  "has_attr t a = (attrs t a \<noteq> None)"

text \<open>\<open>getitem t a\<close> is \<open>t[a]\<close>, which raises \<open>KeyError\<close> for a missing attribute.\<close>

definition getitem :: "tag \<Rightarrow> string \<Rightarrow> py_error + attr_value" where
  "getitem t a = (case attrs t a of None \<Rightarrow> Inl (KeyError a) | Some v \<Rightarrow> Inr v)"

definition find_all :: "tag list \<Rightarrow> string \<Rightarrow> tag list" where
  "find_all soup nm = filter (\<lambda>t. tag_name t = nm) soup"

text \<open>The receiver of a \<open>str\<close> method call: a list has no such method.\<close>

fun str_of :: "attr_value \<Rightarrow> string \<Rightarrow> py_error + string" where
  "str_of (Str s) meth = Inr s"
| "str_of (Lst xs) meth = Inl (AttributeError meth)"

subsection \<open>The environment\<close>

record env =
  http :: session
  parse_html :: "string \<Rightarrow> tag list"
  urljoin :: "string \<Rightarrow> string \<Rightarrow> string"
  list_of_set :: "(string \<times> string) list \<Rightarrow> (string \<times> string) list"
  re_compile :: "string \<Rightarrow> (string \<Rightarrow> bool) option"
  expand_template :: "string \<Rightarrow> string \<Rightarrow> py_error + string"
  getcwd :: string
  abspath :: "string \<Rightarrow> string"
  open_wb :: "string \<Rightarrow> py_error option"
  stream_break :: "string \<Rightarrow> (nat \<times> py_error) option"

text \<open>
  \<open>list_of_set env xs\<close> is \<open>list(set(xs))\<close>, whose order Python leaves open.
  \<open>re_compile env p\<close> is \<open>None\<close> when \<open>re.compile(p)\<close> raises, and otherwise the compiled
  pattern as the predicate \<open>\<lambda>s. re.search(pattern, s) is not None\<close>.
  \<open>expand_template env repl m\<close> is what \<open>re.sub\<close> puts for a match \<open>m\<close> when the replacement
  \<open>repl\<close> holds a backslash (an escape, a group reference, or \<open>re.error\<close>).
  \<open>open_wb env path\<close> is the error that \<open>open(path, 'wb')\<close> raises, if any.
  \<open>stream_break env url\<close> is \<open>Some (k, err)\<close> when the streamed body of \<open>url\<close> breaks: \<open>iter_content\<close>
  yields \<open>k\<close> chunks (or all, if there are fewer) and then raises \<open>err\<close>.
\<close>

subsection \<open>\<open>get_srcset_urls_from_tags\<close> (lines 36-41)\<close>

definition get_srcset_urls_from_tags :: "tag list \<Rightarrow> py_error + string list" where
  "get_srcset_urls_from_tags tags =
     bind_err (comprehension (\<lambda>source. has_attr source ''srcset'')
                 (\<lambda>source. getitem source ''srcset'') tags) (\<lambda>sources_srcsets_raw.
     bind_err (comprehension (\<lambda>_. True)
                 (\<lambda>raw_srcset. bind_err (str_of raw_srcset ''split'') (\<lambda>raw.
                    comprehension (\<lambda>_. True) (\<lambda>i. first_item (split_py i '' ''))
                      (split_py raw '', '')))
                 sources_srcsets_raw) (\<lambda>sources_srcsets.
     Inr (concat sources_srcsets)))"

subsection \<open>The link extractors (lines 44-82)\<close>

text \<open>
  \<open>resolve_links\<close> is the comprehension of lines 51, 63, 72 and 81:
  \<open>[(urljoin(response.url, src), src) if not src.startswith('http') else (src, src) for src in srcs]\<close>.
\<close>

definition resolve_links :: "env \<Rightarrow> response \<Rightarrow> attr_value list \<Rightarrow> py_error + (string \<times> string) list" where
  "resolve_links env response srcs =
     comprehension (\<lambda>_. True)
       (\<lambda>src. bind_err (str_of src ''startswith'') (\<lambda>s.
          Inr (if \<not> startswith s ''http'' then (urljoin env (r_url response) s, s) else (s, s))))
       srcs"

definition get_img_links :: "env \<Rightarrow> tag list \<Rightarrow> response \<Rightarrow> py_error + (string \<times> string) list" where
  "get_img_links env soup response =
     (let imgs = find_all soup ''img'' in
      bind_err (comprehension (\<lambda>img. has_attr img ''src'') (\<lambda>img. getitem img ''src'') imgs) (\<lambda>img_srcs.
      bind_err (get_srcset_urls_from_tags imgs) (\<lambda>img_srcsets.
      bind_err (resolve_links env response (img_srcs @ map Str img_srcsets)) (\<lambda>links.
      Inr (list_of_set env links)))))"

definition get_source_links :: "env \<Rightarrow> tag list \<Rightarrow> response \<Rightarrow> py_error + (string \<times> string) list" where
  "get_source_links env soup response =
     (let sources = find_all soup ''source'' in
      bind_err (comprehension (\<lambda>source. has_attr source ''src'') (\<lambda>source. getitem source ''src'') sources) (\<lambda>sources_srcs.
      bind_err (get_srcset_urls_from_tags sources) (\<lambda>sources_srcsets.
      bind_err (resolve_links env response (sources_srcs @ map Str sources_srcsets)) (\<lambda>links.
      Inr (list_of_set env links)))))"

definition get_stylesheet_links :: "env \<Rightarrow> tag list \<Rightarrow> response \<Rightarrow> py_error + (string \<times> string) list" where
  "get_stylesheet_links env soup response =
     (let links = find_all soup ''link'' in
      bind_err (comprehension
                  (\<lambda>link. has_attr link ''rel'' \<and> getitem link ''rel'' = Inr (Lst [''stylesheet'']))
                  (\<lambda>link. getitem link ''href'') links) (\<lambda>link_srcs.
      bind_err (resolve_links env response link_srcs) (\<lambda>links.
      Inr (list_of_set env links))))"

definition get_js_links :: "env \<Rightarrow> tag list \<Rightarrow> response \<Rightarrow> py_error + (string \<times> string) list" where
  "get_js_links env soup response =
     (let links = find_all soup ''script'' in
      bind_err (comprehension (\<lambda>link. has_attr link ''src'') (\<lambda>link. getitem link ''src'') links) (\<lambda>link_srcs.
      bind_err (resolve_links env response link_srcs) (\<lambda>links.
      Inr (list_of_set env links))))"

subsection \<open>\<open>get_usable_filename_from_url\<close> (lines 85-94)\<close>

text \<open>
  \<open>re_sub_params ext s\<close> is \<open>re.sub(r'(?<=ext)(\?[^/]+)$', '', s)\<close> for \<open>ext\<close> one of
  \<open>.css\<close> and \<open>.js\<close>. The pattern matches at a \<open>?\<close> that stands right after \<open>ext\<close> and is
  followed by at least one character and by no \<open>/\<close> up to the end of the string; the match
  then runs to the end, so the leftmost match is the only one and the result is the text
  before it. \<open>strip_params_from ext pre s\<close> scans \<open>s\<close> with \<open>pre\<close> the text already passed.
\<close>

fun strip_params_from :: "string \<Rightarrow> string \<Rightarrow> string \<Rightarrow> string" where
  "strip_params_from ext pre [] = pre"
| "strip_params_from ext pre (c # cs) =
     (if c = CHR ''?'' \<and> suffix ext pre \<and> cs \<noteq> [] \<and> CHR ''/'' \<notin> set cs then pre
      else strip_params_from ext (pre @ [c]) cs)"

definition re_sub_params :: "string \<Rightarrow> string \<Rightarrow> string" where
  "re_sub_params ext s = strip_params_from ext [] s"

text \<open>\<open>str_index s c\<close> is \<open>s.index(c)\<close> where \<open>c\<close> occurs in \<open>s\<close>.\<close>

definition str_index :: "string \<Rightarrow> char \<Rightarrow> nat" where
  "str_index s c = length (takeWhile (\<lambda>x. x \<noteq> c) s)"

definition get_usable_filename_from_url :: "string \<Rightarrow> string" where
  "get_usable_filename_from_url url =
     (let cleaned_url = (if CHR '':'' \<in> set url then drop (str_index url CHR '':'' + 1) url else url);
          cleaned_url = replace_char CHR ''/'' CHR ''_'' (strip_char CHR ''/'' cleaned_url);
          cleaned_url = re_sub_params ''.css'' cleaned_url;
          cleaned_url = re_sub_params ''.js'' cleaned_url
      in cleaned_url)"

subsection \<open>Paths and the world\<close>

text \<open>
  \<open>path_join a b\<close> is \<open>os.path.join(a, b)\<close> and \<open>path_tail p\<close> is
  \<open>os.path.split(p)[-1]\<close>, the text after the last \<open>/\<close>, both as on POSIX.
\<close>

definition path_join :: "string \<Rightarrow> string \<Rightarrow> string" where
  "path_join a b =
     (if prefix ''/'' b then b
      else if a = [] \<or> suffix ''/'' a then a @ b
      else a @ ''/'' @ b)"

definition path_tail :: "string \<Rightarrow> string" where
  "path_tail p = rev (takeWhile (\<lambda>c. c \<noteq> CHR ''/'') (rev p))"

text \<open>
  The world the program acts on: the GETs issued so far, the files written (path to
  bytes), the directories known to exist, and for each \<open>zip_files\<close> call the archive name
  with the paths handed to \<open>ZipFile.write\<close>.
\<close>

record world =
  requests_log :: "string list"
  files :: "string \<rightharpoonup> string"
  dirs :: "string set"
  zip_archives :: "(string \<times> string list) list"

subsection \<open>\<open>download_media\<close> (lines 97-105)\<close>

text \<open>\<open>iter_content n s\<close> are the chunks of at most \<open>n\<close> bytes of the body \<open>s\<close>.\<close>

function iter_content :: "nat \<Rightarrow> string \<Rightarrow> string list" where
  "iter_content n s = (if n = 0 \<or> s = [] then [] else take n s # iter_content n (drop n s))"
  by pat_completeness auto
termination
  by (relation "measure (\<lambda>(n, s). length s)") auto

declare iter_content.simps [simp del]

text \<open>
  The status code of the response is not read. After the response has arrived, \<open>open\<close> may
  raise, and \<open>iter_content\<close> may raise once the file holds the chunks read so far. Otherwise
  the file holds the chunks that are not empty, in order.
\<close>

definition download_media :: "env \<Rightarrow> string \<Rightarrow> string \<Rightarrow> world \<Rightarrow> (py_error + unit) \<times> world" where
  "download_media env url destination w =
     (case s_get (http env) url (requests_log w) of
        (Raises err, lg) \<Rightarrow> (Inl err, w\<lparr>requests_log := lg\<rparr>)
      | (Responds r, lg) \<Rightarrow>
          (case open_wb env destination of
             Some err \<Rightarrow> (Inl err, w\<lparr>requests_log := lg\<rparr>)
           | None \<Rightarrow>
               (case stream_break env url of
                  Some (k, err) \<Rightarrow>
                    (Inl err, w\<lparr>requests_log := lg,
                                files := (files w)(destination \<mapsto>
                                  concat (filter (\<lambda>chunk. chunk \<noteq> [])
                                    (take k (iter_content 1024 (r_content r)))))\<rparr>)
                | None \<Rightarrow>
                    (Inr (), w\<lparr>requests_log := lg,
                               files := (files w)(destination \<mapsto>
                                 concat (filter (\<lambda>chunk. chunk \<noteq> [])
                                   (iter_content 1024 (r_content r))))\<rparr>))))"

subsection \<open>\<open>zip_files\<close> (lines 108-118)\<close>

text \<open>
  The archive is recorded as its name and the paths written into it; an error while
  writing it is caught and logged inside \<open>zip_files\<close>.
\<close>

definition zip_files :: "env \<Rightarrow> string list \<Rightarrow> string \<Rightarrow> world \<Rightarrow> world" where
  "zip_files env new_files destination_dir w =
     (let zipfile_name = (if getcwd env = destination_dir then ''site'' else path_tail destination_dir);
          zipfile_name = zipfile_name @ ''.zip''
      in w\<lparr>zip_archives := zip_archives w @ [(zipfile_name, new_files)]\<rparr>)"

subsection \<open>\<open>copy_page\<close> (lines 121-177)\<close>

record args =
  ignore_js :: bool
  ignore :: "string option"
  zip_flag :: bool

text \<open>Lines 138-143: the four extractors and \<open>all_additional_links\<close>.\<close>

definition extract_links :: "env \<Rightarrow> tag list \<Rightarrow> response \<Rightarrow> args \<Rightarrow> py_error + (string \<times> string) list" where
  "extract_links env soup r a =
     bind_err (get_img_links env soup r) (\<lambda>img_links.
     bind_err (get_stylesheet_links env soup r) (\<lambda>stylesheet_links.
     bind_err (get_source_links env soup r) (\<lambda>source_links.
     bind_err (if \<not> ignore_js a then get_js_links env soup r else Inr []) (\<lambda>js_links.
     Inr (img_links @ stylesheet_links @ js_links @ source_links)))))"

text \<open>
  Lines 144-151: the ignore filter. When \<open>re.compile\<close> raises, the bare \<open>except\<close> leaves
  \<open>all_additional_links\<close> as it was.
\<close>

definition apply_ignore :: "env \<Rightarrow> args \<Rightarrow> (string \<times> string) list \<Rightarrow> (string \<times> string) list" where
  "apply_ignore env a all_additional_links =
     (case ignore a of
        None \<Rightarrow> all_additional_links
      | Some pat \<Rightarrow>
          (case re_compile env pat of
             None \<Rightarrow> all_additional_links
           | Some ignore_regex \<Rightarrow>
               filter (\<lambda>(link, rel_link). \<not> ignore_regex rel_link) all_additional_links))"

text \<open>
  \<open>replace_all pat repl s\<close> replaces the non-overlapping occurrences of the literal \<open>pat\<close>
  in \<open>s\<close>, from the left, by \<open>repl\<close>; the empty \<open>pat\<close> matches before every byte and at the
  end. \<open>re_sub_escaped env pat repl s\<close> is \<open>re.sub(re.escape(pat), repl, s)\<close>: a replacement
  without a backslash stands for itself, any other is expanded as a template first.
\<close>

fun replace_all :: "string \<Rightarrow> string \<Rightarrow> string \<Rightarrow> string" where
  "replace_all pat repl [] = (if pat = [] then repl else [])"
| "replace_all pat repl (c # cs) =
     (if pat = [] then repl @ c # replace_all pat repl cs
      else if prefix pat (c # cs) then repl @ replace_all pat repl (drop (length pat - 1) cs)
      else c # replace_all pat repl cs)"

definition re_sub_escaped :: "env \<Rightarrow> string \<Rightarrow> string \<Rightarrow> string \<Rightarrow> py_error + string" where
  "re_sub_escaped env pat repl s =
     (if CHR 0x5C \<in> set repl
      then bind_err (expand_template env repl pat) (\<lambda>expanded. Inr (replace_all pat expanded s))
      else Inr (replace_all pat repl s))"

text \<open>
  Lines 155-169: the download loop over \<open>all_additional_links\<close>, with \<open>updated_page\<close> and
  \<open>created_files_relative_path\<close> as accumulators. An exception of \<open>download_media\<close> is
  caught and the loop continues; \<open>re.sub\<close> stands outside the \<open>try\<close>.
\<close>

fun download_loop ::
  "env \<Rightarrow> string \<Rightarrow> string \<Rightarrow> (string \<times> string) list \<Rightarrow> string \<Rightarrow> string list \<Rightarrow> world
     \<Rightarrow> (py_error + string \<times> string list) \<times> world"
where
  "download_loop env destination_dir destdir_name [] updated_page created w =
     (Inr (updated_page, created), w)"
| "download_loop env destination_dir destdir_name ((link, rel_link) # rest) updated_page created w =
     (let new_filename = get_usable_filename_from_url link;
          dest = path_join destination_dir new_filename
      in case download_media env link dest w of
           (Inl err, w') \<Rightarrow>
             download_loop env destination_dir destdir_name rest updated_page created w'
         | (Inr _, w') \<Rightarrow>
             (let replacement_path = path_join ''.'' new_filename;
                  created' = created @ [path_join destdir_name new_filename]
              in case re_sub_escaped env rel_link replacement_path updated_page of
                   Inl err \<Rightarrow> (Inl err, w')
                 | Inr updated_page' \<Rightarrow>
                     download_loop env destination_dir destdir_name rest updated_page' created' w'))"

definition copy_page :: "env \<Rightarrow> string \<Rightarrow> string \<Rightarrow> args \<Rightarrow> world \<Rightarrow> (py_error + unit) \<times> world" where
  "copy_page env url destination_dir a w =
     (case s_get (http env) url (requests_log w) of
        (Raises err, lg) \<Rightarrow> (Inl err, w\<lparr>requests_log := lg\<rparr>)
      | (Responds r, lg) \<Rightarrow>
          (let w1 = w\<lparr>requests_log := lg\<rparr> in
           if status_code r \<noteq> 200 then (Inr (), w1)
           else
             (let base_page_filename = ''index.html'';
                  destdir_name = (if getcwd env = destination_dir then ''.'' else path_tail destination_dir);
                  base_page_path = path_join destination_dir base_page_filename
              in case open_wb env base_page_path of
                   Some err \<Rightarrow> (Inl err, w1)
                 | None \<Rightarrow>
                    (let w2 = w1\<lparr>files := (files w1)(base_page_path \<mapsto> r_content r)\<rparr>;
                         soup = parse_html env (r_content r)
                     in case extract_links env soup r a of
                          Inl err \<Rightarrow> (Inl err, w2)
                        | Inr all_additional_links \<Rightarrow>
                            (case download_loop env destination_dir destdir_name
                                    (apply_ignore env a all_additional_links) (r_content r) [] w2 of
                               (Inl err, w3) \<Rightarrow> (Inl err, w3)
                             | (Inr (updated_page, created_files_relative_path), w3) \<Rightarrow>
                                 (let w4 = (if zip_flag a
                                            then zip_files env created_files_relative_path destination_dir w3
                                            else w3)
                                  in case open_wb env base_page_path of
                                       Some err \<Rightarrow> (Inl err, w4)
                                     | None \<Rightarrow>
                                         (Inr (), w4\<lparr>files := (files w4)(base_page_path \<mapsto> updated_page)\<rparr>)))))))"

subsection \<open>\<open>main\<close> (lines 180-188)\<close>

text \<open>The \<open>for url in urls\<close> loop: an exception of \<open>copy_page\<close> is not caught.\<close>

fun main_loop :: "env \<Rightarrow> string list \<Rightarrow> string \<Rightarrow> args \<Rightarrow> world \<Rightarrow> (py_error + unit) \<times> world" where
  "main_loop env [] destination_dir a w = (Inr (), w)"
| "main_loop env (url # urls) destination_dir a w =
     (case copy_page env url destination_dir a w of
        (Inl err, w') \<Rightarrow> (Inl err, w')
      | (Inr _, w') \<Rightarrow> main_loop env urls destination_dir a w')"

definition main :: "env \<Rightarrow> string list \<Rightarrow> string \<Rightarrow> args \<Rightarrow> world \<Rightarrow> (py_error + unit) \<times> world" where
  "main env urls destination_dir a w =
     (let destination_dir = abspath env destination_dir;
          w' = (if destination_dir \<notin> dirs w then w\<lparr>dirs := insert destination_dir (dirs w)\<rparr> else w)
      in main_loop env urls destination_dir a w')"

subsection \<open>Notions used to state the properties\<close>

text \<open>The outcome of the \<open>k\<close>-th further GET for \<open>u\<close> when the ones before were for \<open>u\<close> too.\<close>

definition attempt :: "session \<Rightarrow> string \<Rightarrow> string list \<Rightarrow> nat \<Rightarrow> outcome" where
  "attempt s u lg k = s (lg @ replicate k u) u"

fun ok200 :: "outcome \<Rightarrow> bool" where
  "ok200 (Raises err) = False"
| "ok200 (Responds resp) = (status_code resp = 200)"

fun final_outcome :: "outcome \<Rightarrow> py_error + rvar" where
  "final_outcome (Raises err) = Inl err"
| "final_outcome (Responds resp) = Inr (Resp resp)"


text \<open>
  \<open>cut_rule ext s r\<close>: \<open>r\<close> is \<open>s\<close> cut before the first \<open>?\<close> that stands right after \<open>ext\<close> and has
  at least one character after it, and \<open>r\<close> is \<open>s\<close> itself when \<open>s\<close> has no such \<open>?\<close>.
\<close>

definition cut_rule :: "string \<Rightarrow> string \<Rightarrow> string \<Rightarrow> bool" where
  "cut_rule ext s r =
     ((\<forall>p q. s = p @ ext @ ''?'' @ q \<and> q \<noteq> [] \<and> \<not> sublist (ext @ ''?'') (p @ ext) \<longrightarrow> r = p @ ext)
      \<and> (\<not> sublist (ext @ ''?'') (butlast s) \<longrightarrow> r = s))"

text \<open>
  \<open>join_py sep xs\<close> is \<open>sep.join(xs)\<close>. A srcset candidate is a URL with an optional
  descriptor; \<open>candidate\<close> is its text.
\<close>

fun join_py :: "string \<Rightarrow> string list \<Rightarrow> string" where
  "join_py sep [] = []"
| "join_py sep [x] = x"
| "join_py sep (x # y # ys) = x @ sep @ join_py sep (y # ys)"

fun candidate :: "string \<times> string option \<Rightarrow> string" where
  "candidate (u, None) = u"
| "candidate (u, Some d) = u @ '' '' @ d"

subsection \<open>Concrete inputs\<close>

text \<open>
  A small site. \<open>site\<close> serves two pages with status 200 (one with an image, one with an
  image whose \<open>src\<close> is empty), the image \<open>/a.png\<close> with status 404 and a body, the
  resource \<open>/a\<close> with status 200 and the page \<open>/old\<close> with status 410; every other
  request raises. \<open>parse_fixture\<close> gives the tags of the two pages, \<open>urljoin_fixture\<close>
  agrees with \<open>urllib.parse.urljoin\<close> on this site for an empty reference and for a
  reference that starts with \<open>/\<close>, and \<open>compile_fixture\<close> refuses the pattern \<open>(\<close> and
  searches for any other pattern as literal text. The working directory is \<open>/home/u\<close>.
  The site also serves \<open>/locked\<close>, whose destination file cannot be opened, and
  \<open>backslash_url\<close>, an image referred to as \<open>backslash_ref\<close>, whose name holds a backslash
  followed by \<open>l\<close>; \<open>re\<close> refuses
  that escape in a replacement template, and \<open>expand_fixture\<close> refuses every template.
  No body stream breaks.
\<close>

definition backslash_ref :: string where
  "backslash_ref = ''img'' @ [CHR 0x5C] @ ''logo.png''"

definition backslash_url :: string where
  "backslash_url = ''http://x.com/'' @ backslash_ref"

definition page_img :: string where
  "page_img = ''<img src=/a.png>''"

definition page_empty_src :: string where
  "page_empty_src = ''<img src='' @ [CHR 0x22, CHR 0x22] @ ''>''"

definition site :: session where
  "site lg u =
     (if u = ''http://x.com/'' then Responds \<lparr>status_code = 200, r_url = u, r_content = page_img\<rparr>
      else if u = ''http://x.com/e'' then Responds \<lparr>status_code = 200, r_url = u, r_content = page_empty_src\<rparr>
      else if u = ''http://x.com/a.png'' then Responds \<lparr>status_code = 404, r_url = u, r_content = ''gone''\<rparr>
      else if u = ''http://x.com/a'' then Responds \<lparr>status_code = 200, r_url = u, r_content = ''A''\<rparr>
      else if u = ''http://x.com/old'' then Responds \<lparr>status_code = 410, r_url = u, r_content = []\<rparr>
      else if u = ''http://x.com/locked'' then Responds \<lparr>status_code = 200, r_url = u, r_content = ''L''\<rparr>
      else if u = backslash_url then Responds \<lparr>status_code = 200, r_url = u, r_content = ''logo''\<rparr>
      else Raises (RequestException ''connection refused''))"

definition parse_fixture :: "string \<Rightarrow> tag list" where
  "parse_fixture page =
     (if page = page_img then [\<lparr>tag_name = ''img'', attrs = [''src'' \<mapsto> Str ''/a.png'']\<rparr>]
      else if page = page_empty_src then [\<lparr>tag_name = ''img'', attrs = [''src'' \<mapsto> Str []]\<rparr>]
      else [])"

definition urljoin_fixture :: "string \<Rightarrow> string \<Rightarrow> string" where
  "urljoin_fixture base ref =
     (if ref = [] then base else if prefix ''/'' ref then ''http://x.com'' @ ref else base @ ref)"

definition compile_fixture :: "string \<Rightarrow> (string \<Rightarrow> bool) option" where
  "compile_fixture pat = (if pat = ''('' then None else Some (sublist pat))"

definition expand_fixture :: "string \<Rightarrow> string \<Rightarrow> py_error + string" where
  "expand_fixture repl m = Inl (ReError ''bad escape'')"

definition open_fixture :: "string \<Rightarrow> py_error option" where
  "open_fixture path =
     (if path = ''/home/u/out/x.com_locked'' then Some (OSError ''Permission denied'') else None)"

definition fixture_env :: env where
  "fixture_env =
     \<lparr>http = site, parse_html = parse_fixture, urljoin = urljoin_fixture, list_of_set = remdups,
      re_compile = compile_fixture, expand_template = expand_fixture,
      getcwd = ''/home/u'', abspath = (\<lambda>p. p),
      open_wb = open_fixture, stream_break = (\<lambda>u. None)\<rparr>"

definition w0 :: world where
  "w0 = \<lparr>requests_log = [], files = Map.empty, dirs = {''/home/u/out''}, zip_archives = []\<rparr>"

definition args0 :: args where
  "args0 = \<lparr>ignore_js = False, ignore = None, zip_flag = False\<rparr>"

text \<open>Two further sessions: one that answers 404 to every request, and one whose first
  request times out and whose later requests are answered with status 200.\<close>

definition always_404 :: session where
  "always_404 lg u = Responds \<lparr>status_code = 404, r_url = u, r_content = ''not found''\<rparr>"

definition flaky :: session where
  "flaky lg u =
     (if lg = [] then Raises (RequestException ''timeout'')
      else Responds \<lparr>status_code = 200, r_url = u, r_content = ''ok''\<rparr>)"

section \<open>Properties\<close>

lemma attempt_0: "attempt s u lg 0 = s lg u"
  by (simp add: attempt_def)

lemma attempt_Suc: "attempt s u (lg @ [u]) k = attempt s u lg (Suc k)"
  by (simp add: attempt_def replicate_app_Cons_same)

lemma loop_break:
  "\<lbrakk>\<forall>i<k. \<not> ok200 (attempt s u lg i); attempt s u lg k = Responds resp;
    status_code resp = 200; j + int k \<le> m - 1\<rbrakk>
   \<Longrightarrow> get_retry_loop s u m [j..m - 1] r lg = (Inr (Resp resp), lg @ replicate (Suc k) u)"
proof (induction k arbitrary: j lg r)
  case 0
  then have "[j..m - 1] = j # [j + 1..m - 1]" by (simp add: upto_rec1)
  with 0 show ?case by (simp add: s_get_def attempt_0)
next
  case (Suc k)
  have l: "[j..m - 1] = j # [j + 1..m - 1]" using Suc.prems by (simp add: upto_rec1)
  have n0: "\<not> ok200 (s lg u)" using Suc.prems(1) attempt_0 [of s u lg] by auto
  have jm: "j \<noteq> m - 1" using Suc.prems by simp
  have ih: "get_retry_loop s u m [j + 1..m - 1] r' (lg @ [u]) = (Inr (Resp resp), (lg @ [u]) @ replicate (Suc k) u)" for r'
  proof (rule Suc.IH)
    show "\<forall>i<k. \<not> ok200 (attempt s u (lg @ [u]) i)" using Suc.prems(1) by (simp add: attempt_Suc)
    show "attempt s u (lg @ [u]) k = Responds resp" using Suc.prems(2) by (simp add: attempt_Suc)
    show "status_code resp = 200" by fact
    show "j + 1 + int k \<le> m - 1" using Suc.prems by simp
  qed
  have app: "(lg @ [u]) @ replicate (Suc k) u = lg @ replicate (Suc (Suc k)) u" by simp
  show ?case
  proof (cases "s lg u")
    case (Raises err)
    then show ?thesis using jm ih app by (simp add: l s_get_def del: replicate_Suc)
  next
    case (Responds r0)
    with n0 have "status_code r0 \<noteq> 200" by simp
    then show ?thesis using Responds ih app by (simp add: l s_get_def del: replicate_Suc)
  qed
qed

lemma loop_exhaust:
  "\<lbrakk>\<forall>i<Suc k. \<not> ok200 (attempt s u lg i); j + int (Suc k) = m\<rbrakk>
   \<Longrightarrow> get_retry_loop s u m [j..m - 1] r lg = (final_outcome (attempt s u lg k), lg @ replicate (Suc k) u)"
proof (induction k arbitrary: j lg r)
  case 0
  then have l: "[j..m - 1] = [j]" by (simp add: upto_rec1)
  have jm: "j = m - 1" using 0 by simp
  have n0: "\<not> ok200 (s lg u)" using "0.prems"(1) attempt_0 [of s u lg] by auto
  show ?case
  proof (cases "s lg u")
    case (Raises err)
    then show ?thesis using jm by (simp add: l s_get_def attempt_0)
  next
    case (Responds r0)
    with n0 have "status_code r0 \<noteq> 200" by simp
    then show ?thesis using Responds by (simp add: l s_get_def attempt_0)
  qed
next
  case (Suc k)
  have l: "[j..m - 1] = j # [j + 1..m - 1]" using Suc.prems by (simp add: upto_rec1)
  have n0: "\<not> ok200 (s lg u)" using Suc.prems(1) attempt_0 [of s u lg] by auto
  have jm: "j \<noteq> m - 1" using Suc.prems by simp
  have ih: "get_retry_loop s u m [j + 1..m - 1] r' (lg @ [u]) = (final_outcome (attempt s u (lg @ [u]) k), (lg @ [u]) @ replicate (Suc k) u)" for r'
  proof (rule Suc.IH)
    show "\<forall>i<Suc k. \<not> ok200 (attempt s u (lg @ [u]) i)" using Suc.prems(1) by (simp add: attempt_Suc)
    show "j + 1 + int (Suc k) = m" using Suc.prems by simp
  qed
  have app: "(lg @ [u]) @ replicate (Suc k) u = lg @ replicate (Suc (Suc k)) u" by simp
  show ?case
  proof (cases "s lg u")
    case (Raises err)
    then show ?thesis using jm ih app by (simp add: l s_get_def attempt_Suc del: replicate_Suc)
  next
    case (Responds r0)
    with n0 have "status_code r0 \<noteq> 200" by simp
    then show ?thesis using Responds ih app by (simp add: l s_get_def attempt_Suc del: replicate_Suc)
  qed
qed

subsection \<open>C1: what \<open>get_retry\<close> retries\<close>

text \<open>
  C1, as the code has it: with \<open>max_retries = n > 0\<close>, a GET attempt that obtains a
  response with status 200 ends the loop and that response is returned; an attempt that
  raises, and equally an attempt that obtains a response with any other status, is
  followed by a further attempt while attempts remain. Hence the response returned is
  that of the first attempt \<open>k < n\<close> with status 200, after \<open>k + 1\<close> GETs; when none of
  the \<open>n\<close> attempts obtains status 200, \<open>n\<close> GETs are made and the last attempt decides:
  its exception is re-raised, or its non-200 response is returned.
\<close>

theorem get_retry_retries_until_200:
  assumes "0 < n"
  shows "(\<forall>k resp. k < n \<and> (\<forall>i<k. \<not> ok200 (attempt s u lg i)) \<and> attempt s u lg k = Responds resp
            \<and> status_code resp = 200
          \<longrightarrow> get_retry s u (int n) lg = (Inr (Resp resp), lg @ replicate (Suc k) u))
       \<and> ((\<forall>i<n. \<not> ok200 (attempt s u lg i))
          \<longrightarrow> get_retry s u (int n) lg = (final_outcome (attempt s u lg (n - 1)), lg @ replicate n u))"
proof (intro conjI allI impI)
  fix k resp
  assume h: "k < n \<and> (\<forall>i<k. \<not> ok200 (attempt s u lg i)) \<and> attempt s u lg k = Responds resp
            \<and> status_code resp = 200"
  then have "get_retry_loop s u (int n) [0..int n - 1] Unbound lg = (Inr (Resp resp), lg @ replicate (Suc k) u)"
    by (intro loop_break) auto
  then show "get_retry s u (int n) lg = (Inr (Resp resp), lg @ replicate (Suc k) u)"
    by (simp add: get_retry_def)
next
  assume h: "\<forall>i<n. \<not> ok200 (attempt s u lg i)"
  obtain k where k: "n = Suc k" using assms by (cases n) auto
  have "get_retry_loop s u (int n) [0..int n - 1] Unbound lg = (final_outcome (attempt s u lg k), lg @ replicate (Suc k) u)"
    using h k by (intro loop_exhaust) auto
  then show "get_retry s u (int n) lg = (final_outcome (attempt s u lg (n - 1)), lg @ replicate n u)"
    using k by (cases "attempt s u lg k") (simp_all add: get_retry_def)
qed

theorem get_retry_retries_until_200_witness:
  "(0::nat) < 3 \<and> attempt flaky ''http://x.com/a'' [] 1 = Responds \<lparr>status_code = 200, r_url = ''http://x.com/a'', r_content = ''ok''\<rparr>
   \<and> \<not> ok200 (attempt flaky ''http://x.com/a'' [] 0)
   \<and> get_retry flaky ''http://x.com/a'' 3 [] =
     (Inr (Resp \<lparr>status_code = 200, r_url = ''http://x.com/a'', r_content = ''ok''\<rparr>),
      [''http://x.com/a'', ''http://x.com/a''])"
proof -
  let ?u = "''http://x.com/a''"
  let ?r = "\<lparr>status_code = 200, r_url = ?u, r_content = ''ok''\<rparr>"
  have a0: "\<not> ok200 (attempt flaky ?u [] 0)" by (simp add: attempt_def flaky_def)
  have a1: "attempt flaky ?u [] 1 = Responds ?r"
    by (simp add: attempt_def flaky_def)
  have n: "(0::nat) < 3" by simp
  have pre: "(1::nat) < 3 \<and> (\<forall>i<1. \<not> ok200 (attempt flaky ?u [] i)) \<and> attempt flaky ?u [] 1 = Responds ?r
            \<and> status_code ?r = 200"
    using a0 a1 by simp
  from get_retry_retries_until_200 [OF n, of flaky ?u "[]", THEN conjunct1, rule_format, OF pre]
  have "get_retry flaky ?u (int 3) [] = (Inr (Resp ?r), [] @ replicate (Suc 1) ?u)" .
  then have "get_retry flaky ?u 3 [] = (Inr (Resp ?r), [?u, ?u])" by (simp add: numeral_2_eq_2)
  then show ?thesis using a0 a1 by simp
qed

text \<open>
  The claim as written (a non-200 response ends the loop at once) fails: against a
  server that always answers 404, \<open>get_retry\<close> with \<open>max_retries = 3\<close> issues three GETs
  before it returns the 404 response.
\<close>

theorem get_retry_404_counterexample:
  "get_retry always_404 ''http://x.com/a'' 3 [] =
     (Inr (Resp \<lparr>status_code = 404, r_url = ''http://x.com/a'', r_content = ''not found''\<rparr>),
      [''http://x.com/a'', ''http://x.com/a'', ''http://x.com/a''])"
proof -
  have l: "[0..(2::int)] = [0, 1, 2]" by (simp add: upto.simps)
  show ?thesis
    by (simp add: get_retry_def l s_get_def always_404_def)
qed

subsection \<open>Facts about the helpers\<close>

lemma bind_err_Inr: "bind_err m f = Inr y \<Longrightarrow> \<exists>x. m = Inr x \<and> f x = Inr y"
  by (cases m) auto

lemma comprehension_mem:
  "comprehension c f xs = Inr ys \<Longrightarrow> x \<in> set xs \<Longrightarrow> c x \<Longrightarrow> \<exists>y. f x = Inr y \<and> y \<in> set ys"
proof (induction xs arbitrary: ys)
  case Nil
  then show ?case by simp
next
  case (Cons a xs)
  show ?case
  proof (cases "c a")
    case False
    with Cons show ?thesis by auto
  next
    case True
    with Cons.prems(1) obtain y0 ys0 where f: "f a = Inr y0" and r: "comprehension c f xs = Inr ys0"
      and ys: "ys = y0 # ys0"
      by (auto dest!: bind_err_Inr)
    show ?thesis
    proof (cases "x = a")
      case True
      with f ys show ?thesis by simp
    next
      case False
      with Cons.prems have "x \<in> set xs" by simp
      from Cons.IH [OF r this Cons.prems(3)] ys show ?thesis by auto
    qed
  qed
qed

lemma comprehension_map:
  "\<forall>x\<in>set xs. f x = Inr (g x) \<Longrightarrow> comprehension (\<lambda>_. True) f xs = Inr (map g xs)"
  by (induction xs) auto

lemma concat_iter_content:
  "0 < n \<Longrightarrow> concat (filter (\<lambda>chunk. chunk \<noteq> []) (iter_content n s)) = s"
proof (induction n s rule: iter_content.induct)
  case (1 n s)
  show ?case
  proof (cases "s = []")
    case True
    then show ?thesis by (simp add: iter_content.simps)
  next
    case False
    with "1.prems" have "take n s \<noteq> []" by (cases s) auto
    moreover have "concat (filter (\<lambda>chunk. chunk \<noteq> []) (iter_content n (drop n s))) = drop n s"
      using 1 False by simp
    ultimately show ?thesis using False "1.prems"
      by (subst iter_content.simps) simp
  qed
qed

lemma download_media_responds:
  "http env (requests_log w) url = Responds r \<Longrightarrow> open_wb env dest = None \<Longrightarrow>
   stream_break env url = None \<Longrightarrow>
   download_media env url dest w =
     (Inr (), w\<lparr>requests_log := requests_log w @ [url], files := (files w)(dest \<mapsto> r_content r)\<rparr>)"
  by (simp add: download_media_def s_get_def concat_iter_content)


lemma download_media_log:
  "requests_log (snd (download_media env url dest w)) = requests_log w @ [url]"
  by (simp add: download_media_def s_get_def split: outcome.splits option.splits prod.splits)

lemma download_loop_log:
  "download_loop env dd dn pairs page created w = (Inr res, w')
   \<Longrightarrow> requests_log w' = requests_log w @ map fst pairs"
proof (induction pairs arbitrary: page created w)
  case Nil
  then show ?case by simp
next
  case (Cons p pairs)
  obtain link rel_link where p: "p = (link, rel_link)" by (cases p)
  let ?dest = "path_join dd (get_usable_filename_from_url link)"
  obtain res1 w1 where dm: "download_media env link ?dest w = (res1, w1)" by (cases "download_media env link ?dest w")
  have lg: "requests_log w1 = requests_log w @ [link]"
    using download_media_log [of env link ?dest w] dm by simp
  show ?case
  proof (cases res1)
    case (Inl err)
    with Cons.prems p dm have "download_loop env dd dn pairs page created w1 = (Inr res, w')"
      by (simp add: Let_def)
    from Cons.IH [OF this] lg p show ?thesis by simp
  next
    case (Inr u)
    show ?thesis
    proof (cases "re_sub_escaped env rel_link (path_join ''.'' (get_usable_filename_from_url link)) page")
      case (Inl err)
      with Cons.prems p dm \<open>res1 = Inr u\<close> show ?thesis by (simp add: Let_def)
    next
      case (Inr page')
      with Cons.prems p dm \<open>res1 = Inr u\<close>
      have "download_loop env dd dn pairs page' (created @ [path_join dn (get_usable_filename_from_url link)]) w1 = (Inr res, w')"
        by (simp add: Let_def)
      from Cons.IH [OF this] lg p show ?thesis by simp
    qed
  qed
qed




lemma set_strip_params_from: "set (strip_params_from ext pre s) \<subseteq> set pre \<union> set s"
proof (induction s arbitrary: pre)
  case Nil
  then show ?case by simp
next
  case (Cons a s)
  from Cons [of "pre @ [a]"] show ?case by auto
qed

lemma set_re_sub_params: "set (re_sub_params ext s) \<subseteq> set s"
  using set_strip_params_from [of ext "[]" s] by (simp add: re_sub_params_def)

lemma set_strip_char: "set (strip_char c s) \<subseteq> set s"
proof -
  have "set (dropWhile (\<lambda>x. x = c) (rev (dropWhile (\<lambda>x. x = c) s))) \<subseteq> set (rev (dropWhile (\<lambda>x. x = c) s))"
    by (rule subsetI) (rule set_dropWhileD)
  also have "\<dots> \<subseteq> set s" by (auto dest: set_dropWhileD)
  finally show ?thesis by (simp add: strip_char_def)
qed

lemma set_replace_char: "set (replace_char a b s) \<subseteq> insert b (set s - {a})"
  by (auto simp: replace_char_def)

lemma filename_chars:
  "set (get_usable_filename_from_url url) \<subseteq> insert CHR ''_'' (set url - {CHR ''/''})"
proof -
  let ?c = "if CHR '':'' \<in> set url then drop (str_index url CHR '':'' + 1) url else url"
  have c: "set ?c \<subseteq> set url" by (auto dest: in_set_dropD)
  have "set (get_usable_filename_from_url url)
        \<subseteq> set (replace_char CHR ''/'' CHR ''_'' (strip_char CHR ''/'' ?c))"
    unfolding get_usable_filename_from_url_def Let_def
    using set_re_sub_params [of "''.js''"] set_re_sub_params [of "''.css''"] by blast
  also have "\<dots> \<subseteq> insert CHR ''_'' (set (strip_char CHR ''/'' ?c) - {CHR ''/''})"
    by (rule set_replace_char)
  also have "\<dots> \<subseteq> insert CHR ''_'' (set url - {CHR ''/''})"
    using set_strip_char [of "CHR ''/''" ?c] c by blast
  finally show ?thesis .
qed

lemma filename_no_slash: "CHR ''/'' \<notin> set (get_usable_filename_from_url url)"
  using filename_chars [of url] by auto

lemma path_join_dot: "CHR ''/'' \<notin> set fn \<Longrightarrow> path_join ''.'' fn = ''./'' @ fn"
  by (cases fn) (auto simp: path_join_def suffix_def)

lemma re_sub_plain:
  "CHR 0x5C \<notin> set link \<Longrightarrow>
   re_sub_escaped env pat (path_join ''.'' (get_usable_filename_from_url link)) s
     = Inr (replace_all pat (''./'' @ get_usable_filename_from_url link) s)"
proof -
  assume a: "CHR 0x5C \<notin> set link"
  have "CHR 0x5C \<notin> set (get_usable_filename_from_url link)"
    using filename_chars [of link] a by auto
  then show ?thesis
    by (simp add: re_sub_escaped_def path_join_dot [OF filename_no_slash])
qed

lemma split_space_end: "CHR '' '' \<notin> set u \<Longrightarrow> split_acc '' '' acc u = [rev acc @ u]"
  by (induction u arbitrary: acc) auto

lemma split_space_first:
  "CHR '' '' \<notin> set u \<Longrightarrow> split_acc '' '' acc (u @ CHR '' '' # d) = (rev acc @ u) # split_acc '' '' [] d"
  by (induction u arbitrary: acc) auto

lemma first_token_candidate:
  "CHR '' '' \<notin> set (fst c) \<Longrightarrow> first_item (split_py (candidate c) '' '') = Inr (fst c)"
proof (cases c)
  case (Pair u d)
  assume "CHR '' '' \<notin> set (fst c)"
  with Pair show ?thesis
    by (cases d) (simp_all add: first_item_def split_py_def split_space_end split_space_first)
qed

lemma split_comma_end: "\<not> sublist '', '' c \<Longrightarrow> split_acc '', '' acc c = [rev acc @ c]"
proof (induction c arbitrary: acc)
  case Nil
  then show ?case by simp
next
  case (Cons x xs)
  then have "\<not> prefix '', '' (x # xs)" and "\<not> sublist '', '' xs"
    by (auto simp: sublist_Cons_right)
  with Cons.IH [of "x # acc"] show ?case by simp
qed

lemma split_comma_first:
  "\<not> sublist '', '' c \<Longrightarrow>
   split_acc '', '' acc (c @ '', '' @ rest) = (rev acc @ c) # split_acc '', '' [] rest"
proof (induction c arbitrary: acc)
  case Nil
  then show ?case by simp
next
  case (Cons x xs)
  then have np: "\<not> prefix '', '' (x # xs)" and ns: "\<not> sublist '', '' xs"
    by (auto simp: sublist_Cons_right)
  have "\<not> prefix '', '' (x # xs @ '', '' @ rest)"
    using np by (cases xs) auto
  with Cons.IH [OF ns, of "x # acc"] show ?case by simp
qed

lemma split_join_candidates:
  "cs \<noteq> [] \<Longrightarrow> \<forall>c\<in>set cs. \<not> sublist '', '' c \<Longrightarrow> split_acc '', '' [] (join_py '', '' cs) = cs"
proof (induction "'', ''" cs rule: join_py.induct)
  case 1
  then show ?case by simp
next
  case (2 x)
  then show ?case by (simp add: split_comma_end)
next
  case (3 x y ys)
  then show ?case using split_comma_first [of x "[]" "join_py '', '' (y # ys)"] by simp
qed

lemma strip_params_skip:
  "CHR ''?'' \<notin> set a \<Longrightarrow> strip_params_from ext pre (a @ rest) = strip_params_from ext (pre @ a) rest"
  by (induction a arbitrary: pre) auto

lemma strip_params_no_query: "CHR ''?'' \<notin> set s \<Longrightarrow> strip_params_from ext pre s = pre @ s"
  using strip_params_skip [of s ext pre "[]"] by simp

lemma strip_params_prefix:
  "\<exists>q'. strip_params_from ext pre s = pre @ q' \<and> prefix q' s
        \<and> (s \<noteq> [] \<and> \<not> (hd s = CHR ''?'' \<and> suffix ext pre) \<longrightarrow> q' \<noteq> [])"
proof (induction s arbitrary: pre)
  case Nil
  then show ?case by simp
next
  case (Cons c cs)
  show ?case
  proof (cases "c = CHR ''?'' \<and> suffix ext pre \<and> cs \<noteq> [] \<and> CHR ''/'' \<notin> set cs")
    case True
    then show ?thesis by simp
  next
    case False
    from Cons [of "pre @ [c]"] obtain q' where
      "strip_params_from ext (pre @ [c]) cs = (pre @ [c]) @ q'" and "prefix q' cs" by blast
    with False have "strip_params_from ext pre (c # cs) = pre @ (c # q') \<and> prefix (c # q') (c # cs)"
      by auto
    then show ?thesis by blast
  qed
qed

lemma strip_params_unchanged:
  "\<not> sublist (ext @ ''?'') (butlast (pre @ s)) \<Longrightarrow> strip_params_from ext pre s = pre @ s"
proof (induction s arbitrary: pre)
  case Nil
  then show ?case by simp
next
  case (Cons c cs)
  have "\<not> (c = CHR ''?'' \<and> suffix ext pre \<and> cs \<noteq> [])"
  proof
    assume m: "c = CHR ''?'' \<and> suffix ext pre \<and> cs \<noteq> []"
    then obtain p where p: "pre = p @ ext" by (auto simp: suffix_def)
    from m have "butlast (pre @ c # cs) = pre @ [c] @ butlast cs" by (simp add: butlast_append)
    with p m have "butlast (pre @ c # cs) = p @ (ext @ ''?'') @ butlast cs" by simp
    then have "sublist (ext @ ''?'') (butlast (pre @ c # cs))" unfolding sublist_def by blast
    with Cons.prems show False by simp
  qed
  moreover have "strip_params_from ext (pre @ [c]) cs = (pre @ [c]) @ cs"
    using Cons.prems by (intro Cons.IH) simp
  ultimately show ?case by auto
qed

lemma strip_params_skip_unmatched:
  "\<not> sublist (ext @ ''?'') (pre @ a) \<Longrightarrow>
   strip_params_from ext pre (a @ rest) = strip_params_from ext (pre @ a) rest"
proof (induction a arbitrary: pre)
  case Nil
  then show ?case by simp
next
  case (Cons c cs)
  have "\<not> (c = CHR ''?'' \<and> suffix ext pre)"
  proof
    assume m: "c = CHR ''?'' \<and> suffix ext pre"
    then obtain p where "pre = p @ ext" by (auto simp: suffix_def)
    with m have "pre @ c # cs = p @ (ext @ ''?'') @ cs" by simp
    then have "sublist (ext @ ''?'') (pre @ c # cs)" unfolding sublist_def by blast
    with Cons.prems show False by simp
  qed
  moreover have "strip_params_from ext (pre @ [c]) (cs @ rest) = strip_params_from ext ((pre @ [c]) @ cs) rest"
    using Cons.prems by (intro Cons.IH) simp
  ultimately show ?case by auto
qed

lemma re_sub_params_cut_rule:
  assumes "CHR ''/'' \<notin> set s"
  shows "cut_rule ext s (re_sub_params ext s)"
  unfolding cut_rule_def
proof (intro conjI allI impI)
  fix p q
  assume a: "s = p @ ext @ ''?'' @ q \<and> q \<noteq> [] \<and> \<not> sublist (ext @ ''?'') (p @ ext)"
  then have "strip_params_from ext [] ((p @ ext) @ CHR ''?'' # q) = strip_params_from ext ([] @ p @ ext) (CHR ''?'' # q)"
    by (intro strip_params_skip_unmatched) simp
  also have "\<dots> = p @ ext" using a assms by (simp add: suffix_def)
  finally show "re_sub_params ext s = p @ ext" using a by (simp add: re_sub_params_def)
next
  assume "\<not> sublist (ext @ ''?'') (butlast s)"
  then show "re_sub_params ext s = s"
    using strip_params_unchanged [of ext "[]" s] by (simp add: re_sub_params_def)
qed

lemma dropWhile_replicate_same: "dropWhile (\<lambda>x. x = c) (replicate n c @ xs) = dropWhile (\<lambda>x. x = c) xs"
  by (induction n) auto

lemma dropWhile_replicate_all: "dropWhile (\<lambda>x. x = c) (replicate n c) = []"
  by (induction n) auto

lemma dropWhile_hd: "xs \<noteq> [] \<Longrightarrow> hd xs \<noteq> c \<Longrightarrow> dropWhile (\<lambda>x. x = c) (xs @ zs) = xs @ zs"
  by (cases xs) auto

lemma strip_char_core:
  assumes "mid = [] \<or> (hd mid \<noteq> c \<and> last mid \<noteq> c)"
  shows "strip_char c (replicate a c @ mid @ replicate b c) = mid"
proof (cases mid rule: rev_cases)
  case Nil
  then show ?thesis
    by (simp add: strip_char_def dropWhile_replicate_same dropWhile_replicate_all)
next
  case (snoc ys y)
  with assms have h: "hd mid \<noteq> c" and l: "y \<noteq> c" by auto
  have ne: "mid \<noteq> []" using snoc by simp
  have 1: "dropWhile (\<lambda>x. x = c) (mid @ replicate b c) = mid @ replicate b c"
    using ne h by (rule dropWhile_hd)
  have 2: "dropWhile (\<lambda>x. x = c) (rev mid) = rev mid"
    using snoc l by simp
  show ?thesis
    by (simp add: strip_char_def dropWhile_replicate_same 1 2)
qed

lemma after_scheme:
  assumes "CHR '':'' \<notin> set scheme"
  shows "drop (str_index (scheme @ '':'' @ rest) CHR '':'' + 1) (scheme @ '':'' @ rest) = rest"
proof -
  have "takeWhile (\<lambda>x. x \<noteq> CHR '':'') (scheme @ '':'' @ rest) = scheme"
    using assms by (induction scheme) auto
  then show ?thesis by (simp add: str_index_def)
qed

lemma filename_of_parts:
  assumes "CHR '':'' \<notin> set scheme" and "mid = [] \<or> (hd mid \<noteq> CHR ''/'' \<and> last mid \<noteq> CHR ''/'')"
  shows "get_usable_filename_from_url (scheme @ '':'' @ replicate a CHR ''/'' @ mid @ replicate b CHR ''/'')
       = re_sub_params ''.js'' (re_sub_params ''.css''
           (map (\<lambda>c. if c = CHR ''/'' then CHR ''_'' else c) mid))"
  using after_scheme [OF assms(1), of "replicate a CHR ''/'' @ mid @ replicate b CHR ''/''"]
    strip_char_core [OF assms(2), of a b]
  by (simp add: get_usable_filename_from_url_def replace_char_def)

lemma not_suffix_css_js: "\<not> suffix ''.css'' (p @ ''.js'')"
proof
  assume "suffix ''.css'' (p @ ''.js'')"
  then obtain z where "p @ ''.js'' = z @ ''.css''" by (auto simp: suffix_def)
  then have "rev (p @ ''.js'') = rev (z @ ''.css'')" by simp
  then show False by simp
qed

lemma strip_css_then_js:
  assumes "base = p @ ext @ ''?'' @ q" and "ext = ''.css'' \<or> ext = ''.js''" and "q \<noteq> []"
    and "CHR ''?'' \<notin> set p" and "CHR ''/'' \<notin> set base"
  shows "re_sub_params ''.js'' (re_sub_params ''.css'' base) = p @ ext"
proof -
  have nq: "CHR ''?'' \<notin> set (p @ ext)" using assms(2,4) by auto
  have ns: "CHR ''/'' \<notin> set q" using assms(1,5) by simp
  from assms(2) show ?thesis
  proof
    assume e: "ext = ''.css''"
    have "strip_params_from ''.css'' [] ((p @ ext) @ CHR ''?'' # q) = strip_params_from ''.css'' (p @ ext) (CHR ''?'' # q)"
      using strip_params_skip [OF nq, of "''.css''" "[]"] by simp
    also have "\<dots> = p @ ext" using e assms(3) ns by (simp add: suffix_def)
    finally have "re_sub_params ''.css'' base = p @ ext" using assms(1) by (simp add: re_sub_params_def)
    moreover have "re_sub_params ''.js'' (p @ ext) = p @ ext"
      using strip_params_no_query [OF nq, of "''.js''" "[]"] by (simp add: re_sub_params_def)
    ultimately show ?thesis by simp
  next
    assume e: "ext = ''.js''"
    have "strip_params_from ''.css'' [] ((p @ ext) @ CHR ''?'' # q) = strip_params_from ''.css'' (p @ ext) (CHR ''?'' # q)"
      using strip_params_skip [OF nq, of "''.css''" "[]"] by simp
    also have "\<dots> = strip_params_from ''.css'' (p @ ext @ ''?'') q"
      using e not_suffix_css_js [of p] by simp
    finally have c: "re_sub_params ''.css'' base = strip_params_from ''.css'' (p @ ext @ ''?'') q"
      using assms(1) by (simp add: re_sub_params_def)
    have "\<not> suffix ''.css'' (p @ ext @ ''?'')"
    proof
      assume "suffix ''.css'' (p @ ext @ ''?'')"
      then obtain z where "p @ ext @ ''?'' = z @ ''.css''" by (auto simp: suffix_def)
      then have "rev (p @ ext @ ''?'') = rev (z @ ''.css'')" by simp
      then show False by simp
    qed
    with strip_params_prefix [of "''.css''" "p @ ext @ ''?''" q] assms(3)
    obtain q' where q': "strip_params_from ''.css'' (p @ ext @ ''?'') q = (p @ ext @ ''?'') @ q'"
      and pq: "prefix q' q" and ne: "q' \<noteq> []" by blast
    have nsq: "CHR ''/'' \<notin> set q'" using pq ns by (auto simp: prefix_def)
    have "strip_params_from ''.js'' [] ((p @ ext) @ CHR ''?'' # q') = strip_params_from ''.js'' (p @ ext) (CHR ''?'' # q')"
      using strip_params_skip [OF nq, of "''.js''" "[]"] by simp
    also have "\<dots> = p @ ext" using e ne nsq by (simp add: suffix_def)
    finally show ?thesis using c q' by (simp add: re_sub_params_def)
  qed
qed

subsection \<open>C2: one page and the batch\<close>

text \<open>
  What the code does for a page whose fetch obtains a response with a status other than
  200: that page fails alone, nothing is written, and the batch goes on.
\<close>

lemma page_non200_continues:
  assumes "http env (requests_log w) url = Responds r" and "status_code r \<noteq> 200"
  shows "copy_page env url dd a w = (Inr (), w\<lparr>requests_log := requests_log w @ [url]\<rparr>)
       \<and> main_loop env (url # urls) dd a w =
           main_loop env urls dd a (w\<lparr>requests_log := requests_log w @ [url]\<rparr>)"
proof -
  have "copy_page env url dd a w = (Inr (), w\<lparr>requests_log := requests_log w @ [url]\<rparr>)"
    using assms by (simp add: copy_page_def s_get_def)
  then show ?thesis by simp
qed

text \<open>
  C2 at a page fetch that raises: the page is fetched by the plain \<open>s.get(url)\<close> of line
  123, outside any \<open>try\<close>, and \<open>get_retry\<close> is never called. So the GET is issued once, its
  exception leaves \<open>copy_page\<close> and then the loop of \<open>main\<close>, and no later URL of the batch is
  requested: the batch ends with that exception, whatever URLs follow.
\<close>

theorem page_fetch_error_aborts_batch:
  assumes "http env (requests_log w) url = Raises err"
  shows "copy_page env url dd a w = (Inl err, w\<lparr>requests_log := requests_log w @ [url]\<rparr>)
       \<and> main_loop env (url # urls) dd a w = (Inl err, w\<lparr>requests_log := requests_log w @ [url]\<rparr>)"
proof -
  have "copy_page env url dd a w = (Inl err, w\<lparr>requests_log := requests_log w @ [url]\<rparr>)"
    using assms by (simp add: copy_page_def s_get_def)
  then show ?thesis by simp
qed

theorem page_fetch_error_aborts_batch_witness:
  "http fixture_env (requests_log w0) ''http://down.example/'' = Raises (RequestException ''connection refused'')
   \<and> main_loop fixture_env [''http://down.example/'', ''http://x.com/''] ''/home/u/out'' args0 w0
       = (Inl (RequestException ''connection refused''), w0\<lparr>requests_log := [''http://down.example/'']\<rparr>)"
proof -
  have h: "http fixture_env (requests_log w0) ''http://down.example/'' = Raises (RequestException ''connection refused'')"
    by (simp add: fixture_env_def site_def backslash_url_def backslash_ref_def)
  from page_fetch_error_aborts_batch [OF h, of "''/home/u/out''" args0 "[''http://x.com/'']"] h
  show ?thesis by (simp add: w0_def)
qed

subsection \<open>C3: a stylesheet link without \<open>href\<close>\<close>

text \<open>
  C3 at the input the claim names: for a tree whose only tag is a \<open>link\<close> with
  \<open>rel = ['stylesheet']\<close> and no \<open>href\<close>, \<open>get_stylesheet_links\<close> does not return a list: the
  comprehension of line 71 guards \<open>rel\<close> only, and \<open>link['href']\<close> raises \<open>KeyError\<close>. The
  image, source and script extractors guard the attribute they read.
\<close>

theorem stylesheet_link_without_href_raises:
  "get_stylesheet_links env [\<lparr>tag_name = ''link'', attrs = [''rel'' \<mapsto> Lst [''stylesheet'']]\<rparr>] r
     = Inl (KeyError ''href'')"
  by (simp add: get_stylesheet_links_def find_all_def has_attr_def getitem_def)

subsection \<open>C4: what goes into the archive\<close>

text \<open>
  C4 at a page with one image, fetched with packaging enabled into \<open>/home/u/out\<close> from the
  working directory \<open>/home/u\<close>: the archive is named \<open>out.zip\<close> and the paths handed to it
  are the downloaded image only. The page file \<open>index.html\<close> is not among them:
  \<open>created_files_relative_path\<close> starts empty and only the download loop appends to it.
\<close>

theorem zip_lacks_page_file:
  "fst (copy_page fixture_env ''http://x.com/'' ''/home/u/out'' \<lparr>ignore_js = False, ignore = None, zip_flag = True\<rparr> w0) = Inr ()
   \<and> zip_archives (snd (copy_page fixture_env ''http://x.com/'' ''/home/u/out''
        \<lparr>ignore_js = False, ignore = None, zip_flag = True\<rparr> w0))
     = [(''out.zip'', [''out/x.com_a.png''])]"
  by code_simp

subsection \<open>C5: empty reference strings\<close>

text \<open>
  C5, as the code has it: empty reference strings are not filtered out. An \<open>img\<close> tag
  whose \<open>src\<close> is the empty string yields the pair of the empty reference resolved
  against the page URL and the empty original text, and that pair stays in the extracted
  list. A pair with empty original text is downloaded like any other, and the empty text
  is the search key of the rewrite: the local path is put before every byte of the page
  and at its end.
\<close>

theorem empty_reference_is_kept:
  assumes "t \<in> set soup" and "tag_name t = ''img''" and "attrs t ''src'' = Some (Str [])"
    and "\<forall>xs. set (list_of_set env xs) = set xs"
    and "get_img_links env soup r = Inr links"
    and "http env (requests_log w) link = Responds resp" and "CHR 0x5C \<notin> set link"
    and "open_wb env (path_join dd (get_usable_filename_from_url link)) = None"
    and "stream_break env link = None"
  shows "(urljoin env (r_url r) [], []) \<in> set links
       \<and> download_loop env dd dn [(link, [])] page created w =
           (Inr (replace_all [] (''./'' @ get_usable_filename_from_url link) page,
                 created @ [path_join dn (get_usable_filename_from_url link)]),
            w\<lparr>requests_log := requests_log w @ [link],
              files := (files w)(path_join dd (get_usable_filename_from_url link) \<mapsto> r_content resp)\<rparr>)"
proof
  from assms(5) obtain img_srcs img_srcsets links0 where
    srcs: "comprehension (\<lambda>img. has_attr img ''src'') (\<lambda>img. getitem img ''src'') (find_all soup ''img'') = Inr img_srcs"
    and res: "resolve_links env r (img_srcs @ map Str img_srcsets) = Inr links0"
    and l: "links = list_of_set env links0"
    unfolding get_img_links_def Let_def by (auto dest!: bind_err_Inr)
  have tin: "t \<in> set (find_all soup ''img'')" using assms(1,2) by (simp add: find_all_def)
  have "has_attr t ''src''" using assms(3) by (simp add: has_attr_def)
  from comprehension_mem [OF srcs tin this] assms(3)
  have "Str [] \<in> set img_srcs" by (auto simp: getitem_def)
  then have "Str [] \<in> set (img_srcs @ map Str img_srcsets)" by simp
  from comprehension_mem [OF res [unfolded resolve_links_def] this]
  have "(urljoin env (r_url r) [], []) \<in> set links0"
    by (auto simp: startswith_def)
  with l assms(4) show "(urljoin env (r_url r) [], []) \<in> set links" by simp
next
  show "download_loop env dd dn [(link, [])] page created w =
           (Inr (replace_all [] (''./'' @ get_usable_filename_from_url link) page,
                 created @ [path_join dn (get_usable_filename_from_url link)]),
            w\<lparr>requests_log := requests_log w @ [link],
              files := (files w)(path_join dd (get_usable_filename_from_url link) \<mapsto> r_content resp)\<rparr>)"
    using assms(7) by (simp add: download_media_responds [OF assms(6,8,9)] Let_def re_sub_plain)
qed

theorem empty_reference_is_kept_witness:
  "\<lparr>tag_name = ''img'', attrs = [''src'' \<mapsto> Str []]\<rparr> \<in> set (parse_fixture page_empty_src)
   \<and> (\<forall>xs. set (list_of_set fixture_env xs) = set xs)
   \<and> get_img_links fixture_env (parse_fixture page_empty_src)
        \<lparr>status_code = 200, r_url = ''http://x.com/e'', r_content = page_empty_src\<rparr>
       = Inr [(''http://x.com/e'', [])]
   \<and> http fixture_env (requests_log w0) ''http://x.com/e''
       = Responds \<lparr>status_code = 200, r_url = ''http://x.com/e'', r_content = page_empty_src\<rparr>
   \<and> (urljoin fixture_env ''http://x.com/e'' [], []) \<in> set [(''http://x.com/e'', [])]
   \<and> fst (download_loop fixture_env ''/home/u/out'' ''out'' [(''http://x.com/e'', [])] ''ab'' [] w0)
       = Inr (''./x.com_ea./x.com_eb./x.com_e'', [''out/x.com_e''])"
proof -
  let ?t = "\<lparr>tag_name = ''img'', attrs = [''src'' \<mapsto> Str []]\<rparr>"
  let ?r = "\<lparr>status_code = 200, r_url = ''http://x.com/e'', r_content = page_empty_src\<rparr>"
  have 1: "?t \<in> set (parse_fixture page_empty_src)" by (simp add: parse_fixture_def page_empty_src_def page_img_def)
  have 2: "tag_name ?t = ''img''" by simp
  have 3: "attrs ?t ''src'' = Some (Str [])" by simp
  have 4: "\<forall>xs. set (list_of_set fixture_env xs) = set xs" by (simp add: fixture_env_def)
  have 5: "get_img_links fixture_env (parse_fixture page_empty_src) ?r = Inr [(''http://x.com/e'', [])]"
    by code_simp
  have 6: "http fixture_env (requests_log w0) ''http://x.com/e'' = Responds ?r"
    by (simp add: fixture_env_def site_def backslash_url_def backslash_ref_def w0_def backslash_url_def)
  have 7: "CHR 0x5C \<notin> set ''http://x.com/e''" by simp
  have f: "get_usable_filename_from_url ''http://x.com/e'' = ''x.com_e''" by code_simp
  have 8: "open_wb fixture_env (path_join ''/home/u/out'' (get_usable_filename_from_url ''http://x.com/e'')) = None"
    unfolding f by (simp add: fixture_env_def open_fixture_def path_join_def)
  have 9: "stream_break fixture_env ''http://x.com/e'' = None" by (simp add: fixture_env_def)
  have j: "path_join ''out'' ''x.com_e'' = ''out/x.com_e''" by code_simp
  have p: "replace_all [] ''./x.com_e'' ''ab'' = ''./x.com_ea./x.com_eb./x.com_e''" by simp
  from empty_reference_is_kept [OF 1 2 3 4 5 6 7 8 9, of "''out''" "''ab''" "[]"]
  have "(urljoin fixture_env ''http://x.com/e'' [], []) \<in> set [(''http://x.com/e'', [])]
     \<and> fst (download_loop fixture_env ''/home/u/out'' ''out'' [(''http://x.com/e'', [])] ''ab'' [] w0)
       = Inr (''./x.com_ea./x.com_eb./x.com_e'', [''out/x.com_e''])"
    by (simp add: f j p)
  with 1 4 5 6 show ?thesis by blast
qed

text \<open>
  The claim as written (no pair with empty original text is resolved, downloaded or used
  as a search key) fails for a page whose only tag is an \<open>img\<close> with an empty \<open>src\<close>: the pair is
  extracted, the page URL is requested a second time as the resource, and the page
  written at the end is the page rewritten with the empty search key.
\<close>

theorem empty_reference_counterexample:
  "get_img_links fixture_env (parse_fixture page_empty_src)
      \<lparr>status_code = 200, r_url = ''http://x.com/e'', r_content = page_empty_src\<rparr>
     = Inr [(''http://x.com/e'', [])]
   \<and> fst (copy_page fixture_env ''http://x.com/e'' ''/home/u/out'' args0 w0) = Inr ()
   \<and> requests_log (snd (copy_page fixture_env ''http://x.com/e'' ''/home/u/out'' args0 w0))
       = [''http://x.com/e'', ''http://x.com/e'']
   \<and> files (snd (copy_page fixture_env ''http://x.com/e'' ''/home/u/out'' args0 w0)) ''/home/u/out/index.html''
       = Some (replace_all [] ''./x.com_e'' page_empty_src)"
  by code_simp

subsection \<open>C6: parsing \<open>srcset\<close>\<close>

text \<open>
  C6, as the code has it: a \<open>srcset\<close> value is split at each comma that is followed by a
  space (the separator is the two characters \<open>, \<close>), and of each piece the text before its
  first space is kept. So for candidates joined by \<open>, \<close>, each a URL without a space,
  optionally followed by a space and a descriptor, and none holding \<open>, \<close> itself, the
  result is exactly the list of the URLs; in particular \<open>a.jpg 1x, b.jpg 2x\<close> yields
  \<open>[a.jpg, b.jpg]\<close>.
\<close>

theorem srcset_comma_space_separated:
  assumes "cands \<noteq> []"
    and "\<forall>c\<in>set cands. CHR '' '' \<notin> set (fst c) \<and> \<not> sublist '', '' (candidate c)"
    and "attrs t ''srcset'' = Some (Str (join_py '', '' (map candidate cands)))"
  shows "get_srcset_urls_from_tags [t] = Inr (map fst cands)"
proof -
  have sp: "split_py (join_py '', '' (map candidate cands)) '', '' = map candidate cands"
    unfolding split_py_def using assms(1,2) by (intro split_join_candidates) auto
  have "comprehension (\<lambda>_. True) (\<lambda>i. first_item (split_py i '' '')) (map candidate cands)
          = Inr (map fst cands)"
  proof -
    have "comprehension (\<lambda>_. True) ((\<lambda>i. first_item (split_py i '' '')) \<circ> candidate) cands = Inr (map fst cands)"
      using assms(2) by (intro comprehension_map) (auto simp: first_token_candidate)
    moreover have "comprehension c (f \<circ> g) xs = comprehension (\<lambda>_. True) f (map g xs)"
      if "c = (\<lambda>_. True)" for c :: "string \<times> string option \<Rightarrow> bool" and f :: "string \<Rightarrow> py_error + string" and g xs
      using that by (induction xs) auto
    ultimately show ?thesis by simp
  qed
  then show ?thesis
    using assms(3) by (simp add: get_srcset_urls_from_tags_def has_attr_def getitem_def sp)
qed

theorem srcset_comma_space_separated_witness:
  "[(''a.jpg'', Some ''1x''), (''b.jpg'', Some ''2x'')] \<noteq> []
   \<and> join_py '', '' (map candidate [(''a.jpg'', Some ''1x''), (''b.jpg'', Some ''2x'')]) = ''a.jpg 1x, b.jpg 2x''
   \<and> get_srcset_urls_from_tags [\<lparr>tag_name = ''img'', attrs = [''srcset'' \<mapsto> Str ''a.jpg 1x, b.jpg 2x'']\<rparr>]
       = Inr [''a.jpg'', ''b.jpg'']"
proof -
  let ?cands = "[(''a.jpg'', Some ''1x''), (''b.jpg'', Some ''2x'')]"
  let ?t = "\<lparr>tag_name = ''img'', attrs = [''srcset'' \<mapsto> Str ''a.jpg 1x, b.jpg 2x'']\<rparr>"
  have n: "?cands \<noteq> []" by simp
  have j: "join_py '', '' (map candidate ?cands) = ''a.jpg 1x, b.jpg 2x''" by simp
  have w: "\<forall>c\<in>set ?cands. CHR '' '' \<notin> set (fst c) \<and> \<not> sublist '', '' (candidate c)"
    by (simp add: sublist_Cons_right)
  have a: "attrs ?t ''srcset'' = Some (Str (join_py '', '' (map candidate ?cands)))" by simp
  from srcset_comma_space_separated [OF n w a] n j show ?thesis by simp
qed

text \<open>
  The claim as written (a comma-separated list) fails when a comma is not followed by a
  space: \<open>a.jpg 1x,b.jpg 2x\<close> is one piece for \<open>split(", ")\<close>, and the second URL is lost.
\<close>

theorem srcset_comma_only_counterexample:
  "get_srcset_urls_from_tags [\<lparr>tag_name = ''img'', attrs = [''srcset'' \<mapsto> Str ''a.jpg 1x,b.jpg 2x'']\<rparr>]
     = Inr [''a.jpg'']"
  by code_simp

subsection \<open>C7: a resource whose download fails\<close>




subsection \<open>C8: the derived filename\<close>

text \<open>
  C8, as the code has it: for a URL \<open>scheme:\<close> followed by any number of \<open>/\<close>, a middle part
  and any number of trailing \<open>/\<close>, the name is derived from the middle part with every \<open>/\<close>
  replaced by \<open>_\<close> (the base). The base is cut before the first \<open>?\<close> that stands right after
  \<open>.css\<close> and has at least one character after it, and is left as it is when it has no
  such \<open>?\<close>; the outcome is then treated the same way for \<open>.js\<close>, and that is the name (last
  conjunct). In particular: when the first \<open>?\<close> of the base stands right after \<open>.css\<close> or
  \<open>.js\<close> and at least one character follows it, the name is the base cut before that \<open>?\<close>;
  when no \<open>?\<close> with a character after it stands right after \<open>.css\<close> or \<open>.js\<close> anywhere in
  the base, the name is the base, query string included; and the name is always a prefix
  of the base and holds no \<open>/\<close>.
\<close>

theorem filename_derivation:
  assumes "url = scheme @ '':'' @ replicate a CHR ''/'' @ mid @ replicate b CHR ''/''"
    and "CHR '':'' \<notin> set scheme"
    and "mid = [] \<or> (hd mid \<noteq> CHR ''/'' \<and> last mid \<noteq> CHR ''/'')"
    and "base = map (\<lambda>c. if c = CHR ''/'' then CHR ''_'' else c) mid"
  shows "(\<forall>p ext q. (ext = ''.css'' \<or> ext = ''.js'') \<and> base = p @ ext @ ''?'' @ q \<and> q \<noteq> []
              \<and> CHR ''?'' \<notin> set p
            \<longrightarrow> get_usable_filename_from_url url = p @ ext)
       \<and> (\<not> sublist ''.css?'' (butlast base) \<and> \<not> sublist ''.js?'' (butlast base)
            \<longrightarrow> get_usable_filename_from_url url = base)
       \<and> prefix (get_usable_filename_from_url url) base
       \<and> CHR ''/'' \<notin> set (get_usable_filename_from_url url)
       \<and> (\<exists>mid. cut_rule ''.css'' base mid \<and> cut_rule ''.js'' mid (get_usable_filename_from_url url))"
proof -
  have fn: "get_usable_filename_from_url url = re_sub_params ''.js'' (re_sub_params ''.css'' base)"
    unfolding assms(1,4) using assms(2,3) by (rule filename_of_parts)
  have nsl: "CHR ''/'' \<notin> set base" unfolding assms(4) by auto
  have 1: "\<forall>p ext q. (ext = ''.css'' \<or> ext = ''.js'') \<and> base = p @ ext @ ''?'' @ q \<and> q \<noteq> []
              \<and> CHR ''?'' \<notin> set p
            \<longrightarrow> get_usable_filename_from_url url = p @ ext"
    using strip_css_then_js nsl unfolding fn by blast
  have 2: "\<not> sublist ''.css?'' (butlast base) \<and> \<not> sublist ''.js?'' (butlast base)
            \<longrightarrow> get_usable_filename_from_url url = base"
  proof
    assume a: "\<not> sublist ''.css?'' (butlast base) \<and> \<not> sublist ''.js?'' (butlast base)"
    have "re_sub_params ''.css'' base = base"
      using a strip_params_unchanged [of "''.css''" "[]" base] by (simp add: re_sub_params_def)
    moreover have "re_sub_params ''.js'' base = base"
      using a strip_params_unchanged [of "''.js''" "[]" base] by (simp add: re_sub_params_def)
    ultimately show "get_usable_filename_from_url url = base" by (simp add: fn)
  qed
  have 3: "prefix (get_usable_filename_from_url url) base"
  proof -
    obtain q1 where q1: "re_sub_params ''.css'' base = q1" "prefix q1 base"
      using strip_params_prefix [of "''.css''" "[]" base] by (auto simp: re_sub_params_def)
    obtain q2 where q2: "re_sub_params ''.js'' q1 = q2" "prefix q2 q1"
      using strip_params_prefix [of "''.js''" "[]" q1] by (auto simp: re_sub_params_def)
    from q1 q2 show ?thesis unfolding fn using prefix_order.trans by auto
  qed
  have 4: "\<exists>mid. cut_rule ''.css'' base mid \<and> cut_rule ''.js'' mid (get_usable_filename_from_url url)"
  proof (intro exI conjI)
    show "cut_rule ''.css'' base (re_sub_params ''.css'' base)"
      using nsl by (rule re_sub_params_cut_rule)
    have "CHR ''/'' \<notin> set (re_sub_params ''.css'' base)"
      using nsl set_re_sub_params [of "''.css''" base] by auto
    then show "cut_rule ''.js'' (re_sub_params ''.css'' base) (get_usable_filename_from_url url)"
      unfolding fn by (rule re_sub_params_cut_rule)
  qed
  from 1 2 3 4 filename_no_slash [of url] show ?thesis by blast
qed

theorem filename_derivation_witness:
  "''https://x.com/css/app.css?v=2'' = ''https'' @ '':'' @ replicate 2 CHR ''/'' @ ''x.com/css/app.css?v=2'' @ replicate 0 CHR ''/''
   \<and> CHR '':'' \<notin> set ''https''
   \<and> get_usable_filename_from_url ''https://x.com/css/app.css?v=2'' = ''x.com_css_app.css''
   \<and> \<not> sublist ''.css?'' (butlast ''x.com_img_a.jpg?v=2'') \<and> \<not> sublist ''.js?'' (butlast ''x.com_img_a.jpg?v=2'')
   \<and> get_usable_filename_from_url ''https://x.com/img/a.jpg?v=2'' = ''x.com_img_a.jpg?v=2''
   \<and> \<not> sublist ''.css?'' ''x.com_img_a.jpg?u=b.css''
   \<and> \<not> sublist ''.js?'' (butlast ''x.com_img_a.jpg?u=b.css'')
   \<and> get_usable_filename_from_url ''https://x.com/img/a.jpg?u=b.css?v=2'' = ''x.com_img_a.jpg?u=b.css''"
proof -
  have u1: "''https://x.com/css/app.css?v=2'' = ''https'' @ '':'' @ replicate 2 CHR ''/'' @ ''x.com/css/app.css?v=2'' @ replicate 0 CHR ''/''"
    by (simp add: numeral_2_eq_2)
  have u2: "''https://x.com/img/a.jpg?v=2'' = ''https'' @ '':'' @ replicate 2 CHR ''/'' @ ''x.com/img/a.jpg?v=2'' @ replicate 0 CHR ''/''"
    by (simp add: numeral_2_eq_2)
  have u3: "''https://x.com/img/a.jpg?u=b.css?v=2'' = ''https'' @ '':'' @ replicate 2 CHR ''/'' @ ''x.com/img/a.jpg?u=b.css?v=2'' @ replicate 0 CHR ''/''"
    by (simp add: numeral_2_eq_2)
  have s: "CHR '':'' \<notin> set ''https''" by simp
  have m1: "''x.com/css/app.css?v=2'' = [] \<or> (hd ''x.com/css/app.css?v=2'' \<noteq> CHR ''/'' \<and> last ''x.com/css/app.css?v=2'' \<noteq> CHR ''/'')"
    by simp
  have m2: "''x.com/img/a.jpg?v=2'' = [] \<or> (hd ''x.com/img/a.jpg?v=2'' \<noteq> CHR ''/'' \<and> last ''x.com/img/a.jpg?v=2'' \<noteq> CHR ''/'')"
    by simp
  have m3: "''x.com/img/a.jpg?u=b.css?v=2'' = [] \<or> (hd ''x.com/img/a.jpg?u=b.css?v=2'' \<noteq> CHR ''/'' \<and> last ''x.com/img/a.jpg?u=b.css?v=2'' \<noteq> CHR ''/'')"
    by simp
  have b1: "''x.com_css_app.css?v=2'' = map (\<lambda>c. if c = CHR ''/'' then CHR ''_'' else c) ''x.com/css/app.css?v=2''"
    by simp
  have b2: "''x.com_img_a.jpg?v=2'' = map (\<lambda>c. if c = CHR ''/'' then CHR ''_'' else c) ''x.com/img/a.jpg?v=2''"
    by simp
  have b3: "''x.com_img_a.jpg?u=b.css?v=2'' = map (\<lambda>c. if c = CHR ''/'' then CHR ''_'' else c) ''x.com/img/a.jpg?u=b.css?v=2''"
    by simp
  have d: "(''.css'' = ''.css'' \<or> ''.css'' = ''.js'') \<and> ''x.com_css_app.css?v=2'' = ''x.com_css_app'' @ ''.css'' @ ''?'' @ ''v=2'' \<and> ''v=2'' \<noteq> []
              \<and> CHR ''?'' \<notin> set ''x.com_css_app''"
    by simp
  have n: "\<not> sublist ''.css?'' (butlast ''x.com_img_a.jpg?v=2'') \<and> \<not> sublist ''.js?'' (butlast ''x.com_img_a.jpg?v=2'')"
    by code_simp
  have n3: "\<not> sublist ''.css?'' ''x.com_img_a.jpg?u=b.css''" by code_simp
  have n4: "\<not> sublist ''.js?'' (butlast ''x.com_img_a.jpg?u=b.css'')" by code_simp
  from filename_derivation [OF u1 s m1 b1] d
  have r1: "get_usable_filename_from_url ''https://x.com/css/app.css?v=2'' = ''x.com_css_app'' @ ''.css''"
    by blast
  from filename_derivation [OF u2 s m2 b2] n
  have r2: "get_usable_filename_from_url ''https://x.com/img/a.jpg?v=2'' = ''x.com_img_a.jpg?v=2''"
    by blast
  from filename_derivation [OF u3 s m3 b3]
  obtain mid where c1: "cut_rule ''.css'' ''x.com_img_a.jpg?u=b.css?v=2'' mid"
    and c2: "cut_rule ''.js'' mid (get_usable_filename_from_url ''https://x.com/img/a.jpg?u=b.css?v=2'')"
    by blast
  have "''x.com_img_a.jpg?u=b.css?v=2'' = ''x.com_img_a.jpg?u=b'' @ ''.css'' @ ''?'' @ ''v=2'' \<and> ''v=2'' \<noteq> []
      \<and> \<not> sublist (''.css'' @ ''?'') (''x.com_img_a.jpg?u=b'' @ ''.css'')"
    using n3 by simp
  with c1 have mid: "mid = ''x.com_img_a.jpg?u=b'' @ ''.css''"
    unfolding cut_rule_def by blast
  have "\<not> sublist (''.js'' @ ''?'') (butlast mid)" using n4 mid by simp
  with c2 have "get_usable_filename_from_url ''https://x.com/img/a.jpg?u=b.css?v=2'' = mid"
    unfolding cut_rule_def by blast
  with mid have r3: "get_usable_filename_from_url ''https://x.com/img/a.jpg?u=b.css?v=2'' = ''x.com_img_a.jpg?u=b.css''"
    by simp
  from u1 s r1 n r2 n3 n4 r3 show ?thesis by simp
qed

text \<open>
  The claim as written (for every other extension the query string is kept verbatim)
  fails when the query string itself holds \<open>.css?\<close> or \<open>.js?\<close>: the pattern is anchored at
  the end of the name, not at the extension of the path, and the query of this \<open>.jpg\<close> URL
  is cut.
\<close>

theorem query_of_other_extension_counterexample:
  "get_usable_filename_from_url ''https://x.com/img/a.jpg?u=b.css?v=2'' = ''x.com_img_a.jpg?u=b.css''"
  by code_simp

subsection \<open>C9: the ignore pattern\<close>

text \<open>What a run of \<open>copy_page\<close> that ends normally on a page with status 200 has done.\<close>

lemma copy_page_ok:
  assumes "http env (requests_log w) url = Responds r" and "status_code r = 200"
    and "extract_links env (parse_html env (r_content r)) r a = Inr all_links"
    and "copy_page env url dd a w = (Inr (), w')"
  shows "\<exists>page created w3.
           download_loop env dd (if getcwd env = dd then ''.'' else path_tail dd)
             (apply_ignore env a all_links) (r_content r) []
             (w\<lparr>requests_log := requests_log w @ [url],
                files := (files w)(path_join dd ''index.html'' \<mapsto> r_content r)\<rparr>)
             = (Inr (page, created), w3)
         \<and> requests_log w' = requests_log w3
         \<and> files w' (path_join dd ''index.html'') = Some page"
proof -
  let ?idx = "path_join dd ''index.html''"
  let ?w2 = "w\<lparr>requests_log := requests_log w @ [url], files := (files w)(?idx \<mapsto> r_content r)\<rparr>"
  let ?dn = "if getcwd env = dd then ''.'' else path_tail dd"
  have o: "open_wb env ?idx = None"
  proof (cases "open_wb env ?idx")
    case (Some err)
    with assms(1,2,4) show ?thesis by (simp add: copy_page_def s_get_def)
  qed simp
  obtain res w3 where l: "download_loop env dd ?dn (apply_ignore env a all_links) (r_content r) [] ?w2 = (res, w3)"
    by (cases "download_loop env dd ?dn (apply_ignore env a all_links) (r_content r) [] ?w2")
  have cp: "copy_page env url dd a w =
      (case res of
         Inl err \<Rightarrow> (Inl err, w3)
       | Inr (updated_page, created) \<Rightarrow>
           (Inr (), (if zip_flag a then zip_files env created dd w3 else w3)
                      \<lparr>files := (files (if zip_flag a then zip_files env created dd w3 else w3))
                                 (?idx \<mapsto> updated_page)\<rparr>))"
    using assms(1,2,3) o l
    by (cases res) (auto simp: copy_page_def s_get_def Let_def split: prod.splits)
  show ?thesis
  proof (cases res)
    case (Inl err)
    with cp assms(4) show ?thesis by simp
  next
    case (Inr pc)
    obtain page created where pc: "pc = (page, created)" by (cases pc)
    with Inr cp assms(4) have "w' = (if zip_flag a then zip_files env created dd w3 else w3)
                      \<lparr>files := (files (if zip_flag a then zip_files env created dd w3 else w3))
                                 (?idx \<mapsto> page)\<rparr>"
      by simp
    then have "requests_log w' = requests_log w3 \<and> files w' ?idx = Some page"
      by (simp add: zip_files_def Let_def)
    with l Inr pc show ?thesis by blast
  qed
qed

text \<open>
  C9: let an ignore pattern be supplied. If it compiles, the list the download loop
  works on is the extracted list without the pairs whose original reference text the
  pattern matches; and a run of \<open>copy_page\<close> that ends normally on a page with status 200
  has requested, after the page, exactly the URLs of the pairs that are left, in order,
  and has written as the page the result of the download loop over those pairs alone: a
  dropped pair is neither downloaded nor rewritten. If the pattern does not compile, no
  pair is dropped and \<open>copy_page\<close> does what it does with no pattern at all.
\<close>

theorem ignore_filter_fail_open:
  assumes "ignore a = Some pat"
  shows "(\<forall>m. re_compile env pat = Some m \<longrightarrow>
            apply_ignore env a links = filter (\<lambda>p. \<not> m (snd p)) links
          \<and> (\<forall>r all_links w'.
                http env (requests_log w) url = Responds r \<and> status_code r = 200
                \<and> extract_links env (parse_html env (r_content r)) r a = Inr all_links
                \<and> copy_page env url dd a w = (Inr (), w')
              \<longrightarrow> requests_log w' =
                    requests_log w @ url # map fst (filter (\<lambda>p. \<not> m (snd p)) all_links)
                \<and> (\<exists>page created w3.
                      download_loop env dd (if getcwd env = dd then ''.'' else path_tail dd)
                        (filter (\<lambda>p. \<not> m (snd p)) all_links) (r_content r) []
                        (w\<lparr>requests_log := requests_log w @ [url],
                           files := (files w)(path_join dd ''index.html'' \<mapsto> r_content r)\<rparr>)
                        = (Inr (page, created), w3)
                      \<and> files w' (path_join dd ''index.html'') = Some page)))
       \<and> (re_compile env pat = None \<longrightarrow>
            apply_ignore env a links = links
          \<and> copy_page env url dd a w = copy_page env url dd (a\<lparr>ignore := None\<rparr>) w)"
proof (intro conjI allI impI)
  fix m assume c: "re_compile env pat = Some m"
  have f: "apply_ignore env a l = filter (\<lambda>p. \<not> m (snd p)) l" for l
    using assms c by (simp add: apply_ignore_def case_prod_unfold)
  show "apply_ignore env a links = filter (\<lambda>p. \<not> m (snd p)) links" by (rule f)
  fix r all_links w'
  assume h: "http env (requests_log w) url = Responds r \<and> status_code r = 200
                \<and> extract_links env (parse_html env (r_content r)) r a = Inr all_links
                \<and> copy_page env url dd a w = (Inr (), w')"
  from h copy_page_ok [of env w url r a all_links dd w']
  obtain page created w3 where
    l: "download_loop env dd (if getcwd env = dd then ''.'' else path_tail dd)
             (filter (\<lambda>p. \<not> m (snd p)) all_links) (r_content r) []
             (w\<lparr>requests_log := requests_log w @ [url],
                files := (files w)(path_join dd ''index.html'' \<mapsto> r_content r)\<rparr>)
             = (Inr (page, created), w3)"
    and lg: "requests_log w' = requests_log w3"
    and pg: "files w' (path_join dd ''index.html'') = Some page"
    unfolding f by blast
  from download_loop_log [OF l] lg
  show "requests_log w' = requests_log w @ url # map fst (filter (\<lambda>p. \<not> m (snd p)) all_links)"
    by simp
  from l pg
  show "\<exists>page created w3.
          download_loop env dd (if getcwd env = dd then ''.'' else path_tail dd)
            (filter (\<lambda>p. \<not> m (snd p)) all_links) (r_content r) []
            (w\<lparr>requests_log := requests_log w @ [url],
               files := (files w)(path_join dd ''index.html'' \<mapsto> r_content r)\<rparr>)
            = (Inr (page, created), w3)
          \<and> files w' (path_join dd ''index.html'') = Some page"
    by blast
next
  assume c: "re_compile env pat = None"
  have n1: "apply_ignore env a l = l" for l
    using assms c by (simp add: apply_ignore_def)
  have n2: "apply_ignore env (a\<lparr>ignore := None\<rparr>) l = l" for l
    by (simp add: apply_ignore_def)
  show "apply_ignore env a links = links" by (rule n1)
  have e: "extract_links env soup r (a\<lparr>ignore := None\<rparr>) = extract_links env soup r a" for soup r
    by (simp add: extract_links_def)
  have z: "zip_flag (a\<lparr>ignore := None\<rparr>) = zip_flag a" by simp
  show "copy_page env url dd a w = copy_page env url dd (a\<lparr>ignore := None\<rparr>) w"
    unfolding copy_page_def n1 n2 e z by (rule refl)
qed

theorem ignore_filter_fail_open_witness:
  "ignore (args0\<lparr>ignore := Some ''png''\<rparr>) = Some ''png''
   \<and> re_compile fixture_env ''png'' = Some (sublist ''png'')
   \<and> apply_ignore fixture_env (args0\<lparr>ignore := Some ''png''\<rparr>)
        [(''http://x.com/a.png'', ''/a.png''), (''http://x.com/a'', ''/a'')] = [(''http://x.com/a'', ''/a'')]
   \<and> http fixture_env (requests_log w0) ''http://x.com/''
       = Responds \<lparr>status_code = 200, r_url = ''http://x.com/'', r_content = page_img\<rparr>
   \<and> extract_links fixture_env (parse_html fixture_env page_img)
        \<lparr>status_code = 200, r_url = ''http://x.com/'', r_content = page_img\<rparr> (args0\<lparr>ignore := Some ''png''\<rparr>)
       = Inr [(''http://x.com/a.png'', ''/a.png'')]
   \<and> fst (copy_page fixture_env ''http://x.com/'' ''/home/u/out'' (args0\<lparr>ignore := Some ''png''\<rparr>) w0) = Inr ()
   \<and> requests_log (snd (copy_page fixture_env ''http://x.com/'' ''/home/u/out'' (args0\<lparr>ignore := Some ''png''\<rparr>) w0))
       = [''http://x.com/'']
   \<and> ignore (args0\<lparr>ignore := Some ''(''\<rparr>) = Some ''(''
   \<and> re_compile fixture_env ''('' = None
   \<and> apply_ignore fixture_env (args0\<lparr>ignore := Some ''(''\<rparr>)
        [(''http://x.com/a.png'', ''/a.png''), (''http://x.com/a'', ''/a'')]
       = [(''http://x.com/a.png'', ''/a.png''), (''http://x.com/a'', ''/a'')]
   \<and> copy_page fixture_env ''http://x.com/'' ''/home/u/out'' (args0\<lparr>ignore := Some ''(''\<rparr>) w0
       = copy_page fixture_env ''http://x.com/'' ''/home/u/out'' (args0\<lparr>ignore := Some ''('', ignore := None\<rparr>) w0"
proof -
  let ?links = "[(''http://x.com/a.png'', ''/a.png''), (''http://x.com/a'', ''/a'')]"
  let ?a = "args0\<lparr>ignore := Some ''png''\<rparr>"
  let ?r = "\<lparr>status_code = 200, r_url = ''http://x.com/'', r_content = page_img\<rparr>"
  let ?cp = "copy_page fixture_env ''http://x.com/'' ''/home/u/out'' ?a w0"
  have i1: "ignore ?a = Some ''png''" by simp
  have c1: "re_compile fixture_env ''png'' = Some (sublist ''png'')"
    by (simp add: fixture_env_def compile_fixture_def)
  have i2: "ignore (args0\<lparr>ignore := Some ''(''\<rparr>) = Some ''(''" by simp
  have c2: "re_compile fixture_env ''('' = None"
    by (simp add: fixture_env_def compile_fixture_def)
  have h: "http fixture_env (requests_log w0) ''http://x.com/'' = Responds ?r"
    by (simp add: fixture_env_def site_def backslash_url_def backslash_ref_def w0_def)
  have s200: "status_code ?r = 200" by simp
  have e: "extract_links fixture_env (parse_html fixture_env (r_content ?r)) ?r ?a = Inr [(''http://x.com/a.png'', ''/a.png'')]"
    by code_simp
  have ok: "fst ?cp = Inr ()" by code_simp
  then have cp: "?cp = (Inr (), snd ?cp)" by (cases ?cp) simp
  note t = ignore_filter_fail_open [OF i1, where env = fixture_env and links = ?links
      and w = w0 and url = "''http://x.com/''" and dd = "''/home/u/out''"]
  have "apply_ignore fixture_env ?a ?links = filter (\<lambda>p. \<not> sublist ''png'' (snd p)) ?links"
    using t c1 by blast
  also have "\<dots> = [(''http://x.com/a'', ''/a'')]" by code_simp
  finally have f1: "apply_ignore fixture_env ?a ?links = [(''http://x.com/a'', ''/a'')]" .
  have "requests_log (snd ?cp) = requests_log w0 @ ''http://x.com/'' #
          map fst (filter (\<lambda>p. \<not> sublist ''png'' (snd p)) [(''http://x.com/a.png'', ''/a.png'')])"
    using t c1 h s200 e cp by blast
  also have "\<dots> = [''http://x.com/'']" by (simp add: w0_def sublist_Cons_right)
  finally have lg: "requests_log (snd ?cp) = [''http://x.com/'']" .
  have f2: "apply_ignore fixture_env (args0\<lparr>ignore := Some ''(''\<rparr>) ?links = ?links
     \<and> copy_page fixture_env ''http://x.com/'' ''/home/u/out'' (args0\<lparr>ignore := Some ''(''\<rparr>) w0
       = copy_page fixture_env ''http://x.com/'' ''/home/u/out'' (args0\<lparr>ignore := Some ''('', ignore := None\<rparr>) w0"
    using ignore_filter_fail_open [OF i2, where env = fixture_env and links = ?links
        and url = "''http://x.com/''" and dd = "''/home/u/out''" and w = w0] c2 by blast
  from i1 c1 f1 h e ok lg i2 c2 f2 show ?thesis by simp
qed

subsection \<open>C10: the status code of a resource\<close>




end
